(* ===== verification/Prelude.thy ===== *)
theory Prelude
  imports Main "HOL-Library.AList"
begin

text \<open>
  Shared vocabulary of the development.

  The modelled program is Python. A function that may raise returns a value of
  \<open>'a res\<close>: \<open>Inl e\<close> is the raised exception, \<open>Inr x\<close> the returned value. A
  run that does not end is the outcome \<open>Inl NonTermination\<close>. A
  \<open>for\<close> loop whose body may raise is \<open>res_fold\<close>; a loop whose body cannot raise is
  \<open>fold\<close>. The collection \<open>res_simps\<close> evaluates these combinators, and
  \<open>res_elims\<close> takes a successful run apart.
\<close>

subsection \<open>Exceptions\<close>

datatype py_error =
    KeyError string
  | IndexError
  | TypeError
  | ValueError
  | UnboundLocalError
  | RecursionError
  | AttributeError string
  | FileNotFoundError string
  | AssertionError string
  | LoggedFatal
  | ErrorReturnCode nat
  | NonTermination

type_synonym 'a res = "py_error + 'a"

definition res_bind :: "'a res \<Rightarrow> ('a \<Rightarrow> 'b res) \<Rightarrow> 'b res" where
  "res_bind m f = (case m of Inl e \<Rightarrow> Inl e | Inr x \<Rightarrow> f x)"

definition res_map :: "('a \<Rightarrow> 'b) \<Rightarrow> 'a res \<Rightarrow> 'b res" where
  "res_map f m = (case m of Inl e \<Rightarrow> Inl e | Inr x \<Rightarrow> Inr (f x))"

definition py_assert :: "bool \<Rightarrow> string \<Rightarrow> unit res" where
  "py_assert b msg = (if b then Inr () else Inl (AssertionError msg))"

text \<open>
  Evaluation of a closed program with \<open>code_simp\<close> looks at the first argument of a bind
  before it looks under the continuation.
\<close>

declare res_bind_def [code_unfold] res_map_def [code_unfold]

text \<open>\<open>for x in xs: s = f x s\<close>, where the body may raise.\<close>

fun res_fold :: "('a \<Rightarrow> 's \<Rightarrow> 's res) \<Rightarrow> 'a list \<Rightarrow> 's \<Rightarrow> 's res" where
  "res_fold f [] s = Inr s"
| "res_fold f (x # xs) s = (case f x s of Inl e \<Rightarrow> Inl e | Inr s' \<Rightarrow> res_fold f xs s')"

named_theorems res_simps
named_theorems res_elims

lemma res_bind_simps [simp, res_simps]:
  "res_bind (Inr x) f = f x"
  "res_bind (Inl e) f = Inl e"
  by (simp_all add: res_bind_def)

lemma res_map_simps [simp, res_simps]:
  "res_map g (Inr x) = Inr (g x)"
  "res_map g (Inl e) = Inl e"
  by (simp_all add: res_map_def)

lemma py_assert_simps [simp, res_simps]:
  "py_assert True msg = Inr ()"
  "py_assert False msg = Inl (AssertionError msg)"
  by (simp_all add: py_assert_def)

lemma res_bind_Inr_iff [res_elims]:
  "res_bind m f = Inr y \<longleftrightarrow> (\<exists>x. m = Inr x \<and> f x = Inr y)"
  by (cases m) auto

lemma res_map_Inr_iff [res_elims]:
  "res_map f m = Inr y \<longleftrightarrow> (\<exists>x. m = Inr x \<and> y = f x)"
  by (cases m) auto

lemma py_assert_Inr_iff [res_elims]: "py_assert b msg = Inr u \<longleftrightarrow> b"
  by (cases b) auto

lemma res_fold_append:
  "res_fold f (xs @ ys) s = res_bind (res_fold f xs s) (res_fold f ys)"
  by (induction xs arbitrary: s) (auto split: sum.splits)

text \<open>\<open>[f(x) for x in xs]\<close>, where \<open>f\<close> may raise; and a loop that collects the results of all runs.\<close>

fun res_list :: "('a \<Rightarrow> 'b res) \<Rightarrow> 'a list \<Rightarrow> 'b list res" where
  "res_list f [] = Inr []"
| "res_list f (x # xs) = res_bind (f x) (\<lambda>y. res_bind (res_list f xs) (\<lambda>ys. Inr (y # ys)))"

definition res_concat :: "('a \<Rightarrow> 'b list res) \<Rightarrow> 'a list \<Rightarrow> 'b list res" where
  "res_concat f xs = res_map concat (res_list f xs)"

lemma res_list_Inr:
  "res_list f xs = Inr ys \<longleftrightarrow> length ys = length xs \<and> (\<forall>i < length xs. f (xs ! i) = Inr (ys ! i))"
proof (induction xs arbitrary: ys)
  case (Cons x xs)
  show ?case
    by (cases ys) (auto simp: res_elims Cons.IH nth_Cons split: nat.splits)
qed auto

lemma set_res_list: "res_list f xs = Inr ys \<Longrightarrow> set ys = {y. \<exists>x \<in> set xs. f x = Inr y}"
  by (induction xs arbitrary: ys) (auto simp: res_elims)

lemma set_res_concat: "res_concat f xs = Inr ys \<Longrightarrow> set ys = {y. \<exists>x \<in> set xs. \<exists>zs. f x = Inr zs \<and> y \<in> set zs}"
proof -
  assume "res_concat f xs = Inr ys"
  then obtain zss where "res_list f xs = Inr zss" "ys = concat zss" by (auto simp: res_concat_def res_elims)
  with set_res_list [OF this(1)] show ?thesis by auto
qed

lemma res_concat_each: "res_concat f xs = Inr ys \<Longrightarrow> x \<in> set xs \<Longrightarrow> \<exists>zs. f x = Inr zs \<and> set zs \<subseteq> set ys"
  by (induction xs arbitrary: ys) (fastforce simp: res_concat_def res_elims)+

lemma res_concat_error: "res_concat f xs = Inl e \<Longrightarrow> \<exists>x \<in> set xs. f x = Inl e"
proof (induction xs)
  case (Cons x xs)
  then show ?case by (cases "f x"; cases "res_list f xs") (auto simp: res_concat_def)
qed (simp add: res_concat_def)

text \<open>An invariant of the body is an invariant of the loop.\<close>

lemma res_fold_invariant:
  assumes "res_fold f xs s = Inr t" and "I s"
    and "\<And>x s s'. x \<in> set xs \<Longrightarrow> I s \<Longrightarrow> f x s = Inr s' \<Longrightarrow> I s'"
  shows "I t"
  using assms
proof (induction xs arbitrary: s)
  case Nil
  then show ?case by simp
next
  case (Cons x xs)
  from Cons.prems(1) obtain s' where s': "f x s = Inr s'" "res_fold f xs s' = Inr t"
    by (auto split: sum.splits)
  from Cons.prems(3) [OF _ Cons.prems(2) s'(1)] have "I s'" by simp
  with Cons.prems(3) show ?case
    by (intro Cons.IH [OF s'(2)]) (auto intro: list.set_intros)
qed

text \<open>A body that cannot raise under an invariant gives a loop that cannot raise.\<close>

lemma res_fold_total:
  assumes "I s" and "\<And>x s. x \<in> set xs \<Longrightarrow> I s \<Longrightarrow> \<exists>s'. f x s = Inr s' \<and> I s'"
  shows "\<exists>t. res_fold f xs s = Inr t \<and> I t"
  using assms
proof (induction xs arbitrary: s)
  case Nil
  then show ?case by simp
next
  case (Cons x xs)
  from Cons.prems(2) [OF _ Cons.prems(1)] obtain s' where s': "f x s = Inr s'" "I s'"
    by auto
  from Cons.IH [OF s'(2) Cons.prems(2)] have "\<exists>t. res_fold f xs s' = Inr t \<and> I t" by simp
  with s'(1) show ?case by simp
qed

text \<open>An invariant that also mentions the elements processed so far.\<close>

lemma res_fold_trace:
  assumes "I ys s" and "\<And>ys x s. x \<in> set xs \<Longrightarrow> I ys s \<Longrightarrow> \<exists>s'. f x s = Inr s' \<and> I (ys @ [x]) s'"
  shows "\<exists>t. res_fold f xs s = Inr t \<and> I (ys @ xs) t"
  using assms
proof (induction xs arbitrary: s ys)
  case Nil
  then show ?case by simp
next
  case (Cons x xs)
  from Cons.prems(2) [OF _ Cons.prems(1)] obtain s' where s': "f x s = Inr s'" "I (ys @ [x]) s'"
    by auto
  from Cons.IH [OF s'(2) Cons.prems(2)]
  have "\<exists>t. res_fold f xs s' = Inr t \<and> I ((ys @ [x]) @ xs) t" by simp
  with s'(1) show ?case by simp
qed

lemma res_fold_trace_Inr:
  assumes "res_fold f xs s = Inr t" "I ys s"
    and "\<And>ys x s s'. I ys s \<Longrightarrow> f x s = Inr s' \<Longrightarrow> I (ys @ [x]) s'"
  shows "I (ys @ xs) t"
  using assms(1,2)
proof (induction xs arbitrary: ys s)
  case Nil
  then show ?case by simp
next
  case (Cons x xs)
  from Cons.prems(1) obtain s' where "f x s = Inr s'" "res_fold f xs s' = Inr t"
    by (auto split: sum.splits)
  with Cons.IH [of s' "ys @ [x]"] assms(3) Cons.prems(2) show ?case by simp
qed

lemma res_fold_pure: "res_fold (\<lambda>x s. Inr (g x s)) xs s = Inr (fold g xs s)"
  by (induction xs arbitrary: s) auto

text \<open>A loop of checks passes if every check passes.\<close>

lemma res_fold_unit: "res_fold (\<lambda>x (_::unit). g x) xs u = Inr v \<longleftrightarrow> (\<forall>x \<in> set xs. g x = Inr ())"
proof (induction xs arbitrary: u)
  case (Cons x xs)
  then show ?case by (cases "g x") auto
qed simp

subsection \<open>Dictionaries with insertion order\<close>

text \<open>
  A Python dictionary that is iterated is an association list: \<open>AList.update\<close>
  overwrites the entry of a present key in place and appends a new key at the end, as
  \<open>d[k] = v\<close> does. \<open>setdefault\<close> only adds.
\<close>

type_synonym ('k, 'v) dict = "('k \<times> 'v) list"

definition dict_setdefault :: "'k \<Rightarrow> 'v \<Rightarrow> ('k, 'v) dict \<Rightarrow> ('k, 'v) dict" where
  "dict_setdefault k v d = (if map_of d k = None then AList.update k v d else d)"

lemma map_of_update [simp]: "map_of (AList.update k v d) = (map_of d)(k \<mapsto> v)"
  by (simp add: update_conv')

lemma map_of_setdefault [simp]:
  "map_of (dict_setdefault k v d) = (if map_of d k = None then (map_of d)(k \<mapsto> v) else map_of d)"
  by (simp add: dict_setdefault_def)

lemma distinct_keys_update [simp]:
  "distinct (map fst d) \<Longrightarrow> distinct (map fst (AList.update k v d))"
  by (rule distinct_update)

lemma distinct_keys_setdefault [simp]:
  "distinct (map fst d) \<Longrightarrow> distinct (map fst (dict_setdefault k v d))"
  by (simp add: dict_setdefault_def)

subsection \<open>Set folds\<close>

lemma fold_insert_set: "fold (\<lambda>x. if P x then insert (f x) else id) xs A = A \<union> f ` {x \<in> set xs. P x}"
  by (induction xs arbitrary: A) auto

lemma fold_Un_set: "fold (\<lambda>x. (\<union>) (f x)) xs A = A \<union> (\<Union>x \<in> set xs. f x)"
  by (induction xs arbitrary: A) auto

lemma ex_nat_split: "(\<exists>i::nat. P i) \<longleftrightarrow> P 0 \<or> (\<exists>i. P (Suc i))"
  by (metis not0_implies_Suc)

lemma set_res_concat_UN:
  assumes "res_concat f xs = Inr ys" "\<And>x zs. f x = Inr zs \<Longrightarrow> set zs = g x"
  shows "set ys = (\<Union>x \<in> set xs. g x)"
proof -
  have one: "(\<exists>zs. f x = Inr zs \<and> y \<in> set zs) \<longleftrightarrow> y \<in> g x" if x: "x \<in> set xs" for x y
  proof -
    from res_concat_each [OF assms(1) x] obtain zs where "f x = Inr zs" by blast
    with assms(2) [OF this] show ?thesis by simp
  qed
  show ?thesis unfolding set_res_concat [OF assms(1)] by (simp add: set_eq_iff one cong: bex_cong)
qed

text \<open>A loop that raises, raises in some run of the body.\<close>

lemma res_fold_error:
  assumes "res_fold f xs s = Inl e" "I s"
    and "\<And>x s s'. x \<in> set xs \<Longrightarrow> I s \<Longrightarrow> f x s = Inr s' \<Longrightarrow> I s'"
    and "\<And>x t. x \<in> set xs \<Longrightarrow> I t \<Longrightarrow> f x t = Inl e \<Longrightarrow> P"
  shows P
  using assms
proof (induction xs arbitrary: s)
  case (Cons x xs)
  show ?case
  proof (cases "f x s")
    case (Inl e')
    with Cons.prems show ?thesis by (intro Cons.prems(4) [of x s]) simp_all
  next
    case (Inr s')
    with Cons.prems have "res_fold f xs s' = Inl e" "I s'" by auto
    with Cons.IH Cons.prems(3,4) show ?thesis by (meson list.set_intros(2))
  qed
qed simp

lemma res_list_error: "res_list f xs = Inl e \<Longrightarrow> \<exists>x \<in> set xs. f x = Inl e"
proof (induction xs)
  case (Cons x xs)
  then show ?case by (cases "f x"; cases "res_list f xs") auto
qed simp

lemma res_fold_reaches:
  assumes "x \<in> set xs" "res_fold f xs s = Inr s'"
    and "\<And>s s'. f x s = Inr s' \<Longrightarrow> P s'"
    and "\<And>y s s'. y \<in> set xs \<Longrightarrow> f y s = Inr s' \<Longrightarrow> P s \<Longrightarrow> P s'"
  shows "P s'"
proof -
  from assms(1) obtain us vs where xs: "xs = us @ x # vs" by (auto simp: in_set_conv_decomp)
  from assms(2) obtain t1 where t1: "res_fold f (x # vs) t1 = Inr s'"
    unfolding xs res_fold_append by (auto simp: res_elims simp del: res_fold.simps)
  then obtain t2 where t: "f x t1 = Inr t2" "res_fold f vs t2 = Inr s'" by (cases "f x t1") auto
  show ?thesis
  proof (rule res_fold_invariant [where I = P, OF t(2)])
    show "P t2" using assms(3) t(1) .
  qed (use assms(4) xs in auto)
qed

lemma res_list_elem: "res_list f xs = Inr ys \<Longrightarrow> x \<in> set xs \<Longrightarrow> \<exists>y \<in> set ys. f x = Inr y"
  by (auto simp: res_list_Inr in_set_conv_nth)

end
