(* ===== verification/Lines.thy ===== *)
theory Lines
  imports PyText
begin

text \<open>
  The line-merging methods of \<open>boundary/extract.py\<close>: \<open>merge_up_lines\<close>,
  \<open>merge_down_var\<close>, \<open>merge_down_fn\<close>. A source file is the list of its lines; every
  method blanks the lines it merges away, so line numbers keep their meaning. The locales
  \<open>line_count\<close> and \<open>line_editing\<close> state that contract for an edit of the file.
\<close>

type_synonym lines = "string list"

subsection \<open>Merging upwards\<close>

text \<open>The regular expression \<open>;|}|#|//|\*/|^\n$\<close>, searched for in the line\<close>

definition terminator :: "string \<Rightarrow> bool" where
  "terminator line \<longleftrightarrow>
     contains line '';'' \<or> contains line ''}'' \<or> contains line ''#'' \<or> contains line ''//'' \<or>
     contains line ''*/'' \<or> line = [NL] \<or> line = [NL, NL]"

fun merge_up_loop :: "lines \<Rightarrow> nat \<Rightarrow> string \<Rightarrow> lines \<times> nat \<times> string" where
  "merge_up_loop lines 0 merged = (lines, 0, merged)"
| "merge_up_loop lines (Suc c) merged =
     (let line = lines ! c
      in if terminator line then (lines, Suc c, merged)
         else merge_up_loop (lines[Suc c := '''']) c (strip line @ '' '' @ merged))"

definition merge_up_lines :: "lines \<Rightarrow> nat \<Rightarrow> (lines \<times> nat) res" where
  "merge_up_lines lines row =
     res_bind (list_get lines row) (\<lambda>line.
       let (ls, c, merged) = merge_up_loop lines row (strip line)
       in Inr (ls[c := replace '' ;'' '';'' merged @ [NL]], c))"

subsection \<open>Merging downwards\<close>

function merge_down_var_loop :: "lines \<Rightarrow> nat \<Rightarrow> string \<Rightarrow> lines \<times> nat \<times> string" where
  "merge_down_var_loop lines row merged =
     (if row < length lines \<and> \<not> contains (lines ! row) '';''
      then merge_down_var_loop (lines[row := '''']) (Suc row) (merged @ strip (lines ! row) @ '' '')
      else (lines, row, merged))"
  by pat_completeness auto
termination
  by (relation "measure (\<lambda>(lines, row, merged). length lines - row)") auto

declare merge_down_var_loop.simps [simp del]

definition merge_down_var :: "lines \<Rightarrow> nat \<Rightarrow> (lines \<times> nat) res" where
  "merge_down_var lines start =
     (let (ls, row, merged) = merge_down_var_loop lines start ''''
      in res_bind (list_get ls row) (\<lambda>line. Inr (ls[row := '''', start := merged @ line], row)))"

definition l_braces :: "string \<Rightarrow> nat" where
  "l_braces = count_char (CHR ''{'')"

definition r_braces :: "string \<Rightarrow> nat" where
  "r_braces = count_char (CHR ''}'')"

function merge_down_fn_loop :: "lines \<Rightarrow> nat \<Rightarrow> nat \<Rightarrow> nat \<Rightarrow> string \<Rightarrow> (lines \<times> nat \<times> string) res" where
  "merge_down_fn_loop lines row l r merged =
     (if l = 0 \<or> l > r
      then if row < length lines
           then res_bind (list_get lines (Suc row)) (\<lambda>next_line.
                  merge_down_fn_loop (lines[row := '''']) (Suc row)
                    (l + l_braces next_line) (r + r_braces next_line) (merged @ strip (lines ! row) @ '' ''))
           else Inl IndexError
      else Inr (lines, row, merged))"
  by pat_completeness auto
termination
  by (relation "measure (\<lambda>(lines, row, l, r, merged). length lines - row)") auto

declare merge_down_fn_loop.simps [simp del]

definition merge_down_fn :: "lines \<Rightarrow> nat \<Rightarrow> (lines \<times> nat) res" where
  "merge_down_fn lines start =
     res_bind (list_get lines start) (\<lambda>line.
       res_bind (merge_down_fn_loop lines start (l_braces line) (r_braces line) '''') (\<lambda>(ls, row, merged).
         Inr (ls[row := '''', start := merged @ ls ! row], row)))"

subsection \<open>The number of lines\<close>

lemma merge_up_loop_length:
  "merge_up_loop ls row m = (ls', c, m') \<Longrightarrow> length ls' = length ls"
  by (induction ls row m rule: merge_up_loop.induct) (auto simp: Let_def split: if_splits)

lemma merge_down_var_loop_length:
  "merge_down_var_loop ls row m = (ls', c, m') \<Longrightarrow> length ls' = length ls"
proof (induction ls row m rule: merge_down_var_loop.induct)
  case (1 ls row m)
  then show ?case by (subst (asm) (2) merge_down_var_loop.simps) (auto split: if_splits)
qed

lemma merge_down_fn_loop_length:
  "merge_down_fn_loop ls row l r m = Inr (ls', c, m') \<Longrightarrow> length ls' = length ls"
proof (induction ls row l r m rule: merge_down_fn_loop.induct)
  case (1 ls row l r m)
  then show ?case
    by (subst (asm) (2) merge_down_fn_loop.simps) (auto simp: res_elims split: if_splits)
qed

lemma merge_up_lines_length: "merge_up_lines ls row = Inr (ls', c) \<Longrightarrow> length ls' = length ls"
  by (auto simp: merge_up_lines_def res_elims split: prod.splits dest: merge_up_loop_length)

lemma merge_down_var_length: "merge_down_var ls row = Inr (ls', c) \<Longrightarrow> length ls' = length ls"
  by (auto simp: merge_down_var_def res_elims split: prod.splits dest: merge_down_var_loop_length)

lemma merge_down_fn_length: "merge_down_fn ls row = Inr (ls', c) \<Longrightarrow> length ls' = length ls"
  by (auto simp: merge_down_fn_def res_elims split: prod.splits dest: merge_down_fn_loop_length)

subsection \<open>Merging upwards: what is joined\<close>

text \<open>
  The declaration starts right after the last terminator line above; nothing else is
  touched, and the lines joined are blanked.
\<close>

lemma merge_up_loop_spec:
  assumes "merge_up_loop ls row m = (ls', c, m')" "row < length ls"
  shows "c \<le> row \<and> (c = 0 \<or> terminator (ls ! (c - 1))) \<and>
    (\<forall>i. c \<le> i \<longrightarrow> i < row \<longrightarrow> \<not> terminator (ls ! i)) \<and>
    (\<forall>i < length ls. ls' ! i = (if c < i \<and> i \<le> row then '''' else ls ! i)) \<and>
    m' = concat (map (\<lambda>i. strip (ls ! i) @ '' '') [c..<row]) @ m"
  using assms
proof (induction ls row m arbitrary: ls' c m' rule: merge_up_loop.induct)
  case (1 ls m)
  then show ?case by auto
next
  case (2 ls k m)
  show ?case
  proof (cases "terminator (ls ! k)")
    case True
    with 2(2) have "ls' = ls" "c = Suc k" "m' = m" by (auto simp: Let_def)
    with True show ?thesis by auto
  next
    case False
    with 2(2) have step: "merge_up_loop (ls[Suc k := '''']) k (strip (ls ! k) @ '' '' @ m) = (ls', c, m')"
      by (simp add: Let_def)
    let ?ls = "ls[Suc k := '''']"
    from 2(1) [OF refl False step] 2(3) have IH: "c \<le> k" "c = 0 \<or> terminator (?ls ! (c - 1))"
      "\<And>i. c \<le> i \<Longrightarrow> i < k \<Longrightarrow> \<not> terminator (?ls ! i)"
      "\<And>i. i < length ls \<Longrightarrow> ls' ! i = (if c < i \<and> i \<le> k then '''' else ?ls ! i)"
      "m' = concat (map (\<lambda>i. strip (?ls ! i) @ '' '') [c..<k]) @ strip (ls ! k) @ '' '' @ m"
      by auto
    have same: "?ls ! i = ls ! i" if "i \<le> k" for i using that by simp
    from IH(2) \<open>c \<le> k\<close> have "c = 0 \<or> terminator (ls ! (c - 1))" by (auto simp: same)
    moreover have "\<not> terminator (ls ! i)" if "c \<le> i" "i < Suc k" for i
      using IH(3) [of i] that False by (cases "i = k") (auto simp: same)
    moreover have "ls' ! i = (if c < i \<and> i \<le> Suc k then '''' else ls ! i)" if "i < length ls" for i
      using IH(4) [OF that] 2(3) \<open>c \<le> k\<close> by (auto simp: nth_list_update)
    moreover have "concat (map (\<lambda>i. strip (?ls ! i) @ '' '') [c..<k]) = concat (map (\<lambda>i. strip (ls ! i) @ '' '') [c..<k])"
      by (intro arg_cong [where f = concat] map_cong) (auto simp: same)
    ultimately show ?thesis using IH(1,5) by (intro conjI allI impI) simp_all
  qed
qed

lemma merge_up_lines_spec:
  assumes "merge_up_lines ls row = Inr (ls', c)"
  shows "row < length ls" "c \<le> row" "c = 0 \<or> terminator (ls ! (c - 1))"
    "\<And>i. c \<le> i \<Longrightarrow> i < row \<Longrightarrow> \<not> terminator (ls ! i)"
    "\<And>i. i < length ls \<Longrightarrow> i \<noteq> c \<Longrightarrow> ls' ! i = (if c < i \<and> i \<le> row then '''' else ls ! i)"
    "ls' ! c = replace '' ;'' '';'' (concat (map (\<lambda>i. strip (ls ! i) @ '' '') [c..<row]) @ strip (ls ! row)) @ [NL]"
proof -
  from assms obtain ls1 m where run: "row < length ls"
    "merge_up_loop ls row (strip (ls ! row)) = (ls1, c, m)" "ls' = ls1[c := replace '' ;'' '';'' m @ [NL]]"
    by (auto simp: merge_up_lines_def res_elims split: prod.splits dest: merge_up_loop_length)
  note spec = merge_up_loop_spec [OF run(2,1)]
  show "row < length ls" by (rule run(1))
  show "c \<le> row" "c = 0 \<or> terminator (ls ! (c - 1))" using spec by auto
  show "\<not> terminator (ls ! i)" if "c \<le> i" "i < row" for i using spec that by auto
  show "ls' ! i = (if c < i \<and> i \<le> row then '''' else ls ! i)" if "i < length ls" "i \<noteq> c" for i
    using spec that by (simp add: run(3))
  show "ls' ! c = replace '' ;'' '';'' (concat (map (\<lambda>i. strip (ls ! i) @ '' '') [c..<row]) @ strip (ls ! row)) @ [NL]"
    using spec run merge_up_loop_length [OF run(2)] by (simp add: run(3))
qed

subsection \<open>Merging a variable definition downwards\<close>

definition first_semicolon :: "lines \<Rightarrow> nat \<Rightarrow> nat \<Rightarrow> bool" where
  "first_semicolon ls start k \<longleftrightarrow> start \<le> k \<and> k < length ls \<and> contains (ls ! k) '';'' \<and>
     (\<forall>i. start \<le> i \<longrightarrow> i < k \<longrightarrow> \<not> contains (ls ! i) '';'')"

lemma merge_down_var_loop_spec:
  assumes "merge_down_var_loop ls row m = (ls', c, m')" "row \<le> length ls"
  shows "row \<le> c \<and> c \<le> length ls \<and> (c < length ls \<longrightarrow> contains (ls ! c) '';'') \<and>
    (\<forall>i. row \<le> i \<longrightarrow> i < c \<longrightarrow> \<not> contains (ls ! i) '';'') \<and>
    (\<forall>i < length ls. ls' ! i = (if row \<le> i \<and> i < c then '''' else ls ! i)) \<and>
    m' = m @ concat (map (\<lambda>i. strip (ls ! i) @ '' '') [row..<c])"
  using assms
proof (induction ls row m arbitrary: ls' c m' rule: merge_down_var_loop.induct)
  case (1 ls row m)
  show ?case
  proof (cases "row < length ls \<and> \<not> contains (ls ! row) '';''")
    case False
    then have "merge_down_var_loop ls row m = (ls, row, m)" by (simp only: merge_down_var_loop.simps [of ls row m] if_False)
    with 1(2) have "ls' = ls" "c = row" "m' = m" by auto
    with False 1(3) show ?thesis by auto
  next
    case True
    let ?ls = "ls[row := '''']"
    from True 1(2) have step: "merge_down_var_loop ?ls (Suc row) (m @ strip (ls ! row) @ '' '') = (ls', c, m')"
      by (subst (asm) merge_down_var_loop.simps) simp
    from 1(1) [OF True step] True have IH: "Suc row \<le> c" "c \<le> length ls" "c < length ls \<Longrightarrow> contains (?ls ! c) '';''"
      "\<And>i. Suc row \<le> i \<Longrightarrow> i < c \<Longrightarrow> \<not> contains (?ls ! i) '';''"
      "\<And>i. i < length ls \<Longrightarrow> ls' ! i = (if Suc row \<le> i \<and> i < c then '''' else ?ls ! i)"
      "m' = m @ strip (ls ! row) @ '' '' @ concat (map (\<lambda>i. strip (?ls ! i) @ '' '') [Suc row..<c])"
      by auto
    have same: "?ls ! i = ls ! i" if "row < i" for i using that by simp
    have "concat (map (\<lambda>i. strip (?ls ! i) @ '' '') [Suc row..<c]) = concat (map (\<lambda>i. strip (ls ! i) @ '' '') [Suc row..<c])"
      by (intro arg_cong [where f = concat] map_cong) (auto simp: same)
    with IH(1,6) have "m' = m @ concat (map (\<lambda>i. strip (ls ! i) @ '' '') [row..<c])"
      by (simp add: upt_conv_Cons)
    moreover have "\<not> contains (ls ! i) '';''" if "row \<le> i" "i < c" for i
      using IH(4) [of i] that True by (cases "i = row") (auto simp: same)
    moreover have "ls' ! i = (if row \<le> i \<and> i < c then '''' else ls ! i)" if "i < length ls" for i
      using IH(5) [OF that] IH(1) that True by (auto simp: nth_list_update)
    ultimately show ?thesis using IH(1-3) by (intro conjI allI impI) (simp_all add: same)
  qed
qed

lemma merge_down_var_spec:
  assumes "merge_down_var ls row = Inr (ls', c)" "row \<le> length ls"
  shows "first_semicolon ls row c"
    "ls' ! row = concat (map (\<lambda>i. strip (ls ! i) @ '' '') [row..<c]) @ ls ! c"
    "\<And>i. i < length ls \<Longrightarrow> i \<noteq> row \<Longrightarrow> ls' ! i = (if row < i \<and> i \<le> c then '''' else ls ! i)"
proof -
  from assms(1) obtain ls1 m where run: "merge_down_var_loop ls row '''' = (ls1, c, m)"
    "c < length ls1" "ls' = ls1[c := '''', row := m @ ls1 ! c]"
    by (auto simp: merge_down_var_def res_elims split: prod.splits)
  note spec = merge_down_var_loop_spec [OF run(1) assms(2)]
  note len = merge_down_var_loop_length [OF run(1)]
  show "first_semicolon ls row c" using spec run(2) len by (simp add: first_semicolon_def)
  show "ls' ! row = concat (map (\<lambda>i. strip (ls ! i) @ '' '') [row..<c]) @ ls ! c"
    using spec run(2,3) len by (simp add: nth_list_update)
  show "ls' ! i = (if row < i \<and> i \<le> c then '''' else ls ! i)" if "i < length ls" "i \<noteq> row" for i
    using spec run(2,3) len that by (auto simp: nth_list_update)
qed

lemma merge_down_var_fails:
  assumes "row \<le> length ls" "\<forall>k. \<not> first_semicolon ls row k"
  shows "merge_down_var ls row = Inl IndexError"
proof -
  obtain ls1 c m where run: "merge_down_var_loop ls row '''' = (ls1, c, m)" by (metis prod_cases3)
  note spec = merge_down_var_loop_spec [OF run assms(1)]
  with assms(2) have "c = length ls" by (auto simp: first_semicolon_def)
  with merge_down_var_loop_length [OF run] show ?thesis
    by (simp add: merge_down_var_def run list_get_def)
qed

subsection \<open>Merging a function definition downwards\<close>

text \<open>The braces of lines \<open>start\<close> to \<open>k\<close> are balanced for the first time at line \<open>k\<close>.\<close>

definition braces_upto :: "(string \<Rightarrow> nat) \<Rightarrow> lines \<Rightarrow> nat \<Rightarrow> nat \<Rightarrow> nat" where
  "braces_upto count ls start k = (\<Sum>i = start..k. count (ls ! i))"

definition open_at :: "lines \<Rightarrow> nat \<Rightarrow> nat \<Rightarrow> bool" where
  "open_at ls start k \<longleftrightarrow>
     braces_upto l_braces ls start k = 0 \<or> braces_upto l_braces ls start k > braces_upto r_braces ls start k"

definition joined_lines :: "lines \<Rightarrow> nat \<Rightarrow> nat \<Rightarrow> string" where
  "joined_lines ls row c = concat (map (\<lambda>i. strip (ls ! i) @ '' '') [row..<c])"

lemma joined_lines_empty [simp]: "joined_lines ls c c = ''''"
  by (simp add: joined_lines_def)

lemma joined_lines_step: "row < c \<Longrightarrow> joined_lines ls row c = strip (ls ! row) @ '' '' @ joined_lines ls (Suc row) c"
  by (simp add: joined_lines_def upt_conv_Cons)

lemma merge_down_fn_loop_spec:
  assumes "row < length ls"
    and "start \<le> row" "l = braces_upto l_braces ls start row" "r = braces_upto r_braces ls start row"
    and "length cur = length ls" "\<forall>i < length ls. cur ! i = (if start \<le> i \<and> i < row then '''' else ls ! i)"
    and "\<forall>i. start \<le> i \<longrightarrow> i < row \<longrightarrow> open_at ls start i"
  shows "case merge_down_fn_loop cur row l r m of
      Inl e \<Rightarrow> e = IndexError \<and> (\<forall>i. start \<le> i \<longrightarrow> i < length ls \<longrightarrow> open_at ls start i)
    | Inr (ls', c, m') \<Rightarrow> row \<le> c \<and> c < length ls \<and> \<not> open_at ls start c \<and>
        (\<forall>i. start \<le> i \<longrightarrow> i < c \<longrightarrow> open_at ls start i) \<and> m' = m @ joined_lines ls row c \<and>
        (\<forall>i < length ls. ls' ! i = (if start \<le> i \<and> i < c then '''' else ls ! i))"
  using assms
proof (induction cur row l r m rule: merge_down_fn_loop.induct)
  case (1 cur row l r m)
  have here: "open_at ls start row \<longleftrightarrow> l = 0 \<or> l > r" using 1(4,5) by (simp add: open_at_def)
  show ?case
  proof (cases "l = 0 \<or> l > r")
    case False
    then have "merge_down_fn_loop cur row l r m = Inr (cur, row, m)"
      by (simp add: merge_down_fn_loop.simps [of cur row l r m])
    with False 1(2,3,7,8) here show ?thesis by simp
  next
    case True
    have opened: "\<forall>i. start \<le> i \<longrightarrow> i < Suc row \<longrightarrow> open_at ls start i"
      using 1(8) True here by (auto simp: less_Suc_eq)
    show ?thesis
    proof (cases "Suc row < length ls")
      case False
      with 1(2) opened have "open_at ls start i" if "start \<le> i" "i < length ls" for i using that by auto
      with False True 1(2,6) show ?thesis
        by (simp add: merge_down_fn_loop.simps [of cur row l r m] list_get_def)
    next
      case bound: True
      have next_line: "cur ! Suc row = ls ! Suc row" "cur ! row = ls ! row" using 1(2,7) bound by simp_all
      have sum: "braces_upto count ls start (Suc row) = braces_upto count ls start row + count (ls ! Suc row)" for count
        using 1(3) by (simp add: braces_upto_def)
      have step: "merge_down_fn_loop cur row l r m = merge_down_fn_loop (cur[row := '''']) (Suc row)
          (l + l_braces (ls ! Suc row)) (r + r_braces (ls ! Suc row)) (m @ strip (ls ! row) @ '' '')"
        using True bound 1(6) by (simp add: merge_down_fn_loop.simps [of cur row l r m] list_get_def next_line)
      have "case merge_down_fn_loop (cur[row := '''']) (Suc row)
          (l + l_braces (ls ! Suc row)) (r + r_braces (ls ! Suc row)) (m @ strip (ls ! row) @ '' '') of
          Inl e \<Rightarrow> e = IndexError \<and> (\<forall>i. start \<le> i \<longrightarrow> i < length ls \<longrightarrow> open_at ls start i)
        | Inr (ls', c, m') \<Rightarrow> Suc row \<le> c \<and> c < length ls \<and> \<not> open_at ls start c \<and>
            (\<forall>i. start \<le> i \<longrightarrow> i < c \<longrightarrow> open_at ls start i) \<and>
            m' = (m @ strip (ls ! row) @ '' '') @ joined_lines ls (Suc row) c \<and>
            (\<forall>i < length ls. ls' ! i = (if start \<le> i \<and> i < c then '''' else ls ! i))"
      proof (rule 1(1) [OF True, unfolded next_line(2)])
        show "row < length cur" using 1(2,6) by simp

        show "start \<le> Suc row" using 1(3) by simp
        show "l + l_braces (ls ! Suc row) = braces_upto l_braces ls start (Suc row)"
          using 1(4) by (simp add: sum)
        show "r + r_braces (ls ! Suc row) = braces_upto r_braces ls start (Suc row)"
          using 1(5) by (simp add: sum)
        show "length (cur[row := '''']) = length ls" using 1(6) by simp
        show "\<forall>i < length ls. cur[row := ''''] ! i = (if start \<le> i \<and> i < Suc row then '''' else ls ! i)"
        proof (intro allI impI)
          fix i assume "i < length ls"
          with 1(2,3,6,7) show "cur[row := ''''] ! i = (if start \<le> i \<and> i < Suc row then '''' else ls ! i)"
            by (cases "i = row") (auto simp: nth_list_update)
        qed
      qed (use bound opened in simp_all)
      then show ?thesis unfolding step by (auto simp: joined_lines_step split: sum.splits)
    qed
  qed
qed

text \<open>
  The definition that starts at line \<open>h\<close> ends at line \<open>e\<close>: there its braces have been
  opened and are balanced, and at no line before. The definition is joined into its first
  line, and the other lines of it are blanked.
\<close>

definition fn_block :: "lines \<Rightarrow> nat \<Rightarrow> nat \<Rightarrow> bool" where
  "fn_block ls h e \<longleftrightarrow> h \<le> e \<and> e < length ls \<and> \<not> open_at ls h e \<and> (\<forall>k. h \<le> k \<longrightarrow> k < e \<longrightarrow> open_at ls h k)"

definition joined_block :: "lines \<Rightarrow> nat \<Rightarrow> nat \<Rightarrow> lines" where
  "joined_block ls h e = map (\<lambda>i. if i = h then joined_lines ls h e @ ls ! e
     else if h < i \<and> i \<le> e then '''' else ls ! i) [0..<length ls]"

lemma joined_block_iff:
  assumes "h < length ls"
  shows "ls' = joined_block ls h e \<longleftrightarrow> length ls' = length ls \<and> ls' ! h = joined_lines ls h e @ ls ! e \<and>
    (\<forall>i < length ls. i \<noteq> h \<longrightarrow> ls' ! i = (if h < i \<and> i \<le> e then '''' else ls ! i))"
proof
  assume eq: "ls' = joined_block ls h e"
  show "length ls' = length ls \<and> ls' ! h = joined_lines ls h e @ ls ! e \<and>
    (\<forall>i < length ls. i \<noteq> h \<longrightarrow> ls' ! i = (if h < i \<and> i \<le> e then '''' else ls ! i))"
    unfolding eq using assms by (simp add: joined_block_def)
next
  assume facts: "length ls' = length ls \<and> ls' ! h = joined_lines ls h e @ ls ! e \<and>
    (\<forall>i < length ls. i \<noteq> h \<longrightarrow> ls' ! i = (if h < i \<and> i \<le> e then '''' else ls ! i))"
  show "ls' = joined_block ls h e"
  proof (rule nth_equalityI)
    fix i assume "i < length ls'"
    with facts show "ls' ! i = joined_block ls h e ! i" by (cases "i = h") (auto simp: joined_block_def)
  qed (use facts in \<open>simp add: joined_block_def\<close>)
qed

lemma fn_block_unique: "fn_block ls h e \<Longrightarrow> fn_block ls h e' \<Longrightarrow> e = e'"
  unfolding fn_block_def by (meson linorder_neqE_nat)

lemma merge_down_fn_outcome:
  assumes "h < length ls"
  shows "case merge_down_fn ls h of
      Inl e \<Rightarrow> e = IndexError \<and> (\<forall>c. \<not> fn_block ls h c)
    | Inr (ls', c) \<Rightarrow> fn_block ls h c \<and> ls' = joined_block ls h c"
proof -
  let ?loop = "merge_down_fn_loop ls h (l_braces (ls ! h)) (r_braces (ls ! h)) ''''"
  have spec: "case ?loop of
      Inl e \<Rightarrow> e = IndexError \<and> (\<forall>i. h \<le> i \<longrightarrow> i < length ls \<longrightarrow> open_at ls h i)
    | Inr (ls', c, m') \<Rightarrow> h \<le> c \<and> c < length ls \<and> \<not> open_at ls h c \<and>
        (\<forall>i. h \<le> i \<longrightarrow> i < c \<longrightarrow> open_at ls h i) \<and> m' = '''' @ joined_lines ls h c \<and>
        (\<forall>i < length ls. ls' ! i = (if h \<le> i \<and> i < c then '''' else ls ! i))"
    by (rule merge_down_fn_loop_spec [OF assms]) (auto simp: braces_upto_def)
  show ?thesis
  proof (cases ?loop)
    case (Inl e)
    with spec assms show ?thesis by (auto simp: merge_down_fn_def list_get_def fn_block_def)
  next
    case (Inr t)
    obtain ls1 c m where t: "t = (ls1, c, m)" by (cases t) auto
    with spec Inr have facts: "h \<le> c" "c < length ls" "fn_block ls h c" "m = joined_lines ls h c"
      "\<forall>i < length ls. ls1 ! i = (if h \<le> i \<and> i < c then '''' else ls ! i)" by (auto simp: fn_block_def)
    have len: "length ls1 = length ls" using merge_down_fn_loop_length Inr t by blast
    have "ls1[c := '''', h := m @ ls1 ! c] = joined_block ls h c"
      by (rule nth_equalityI) (use facts len in \<open>auto simp: joined_block_def nth_list_update\<close>)
    with Inr t assms facts(3) show ?thesis by (simp add: merge_down_fn_def list_get_def)
  qed
qed

lemma merge_down_fn_Inr_iff:
  "h < length ls \<Longrightarrow> merge_down_fn ls h = Inr (ls', c) \<longleftrightarrow> fn_block ls h c \<and> ls' = joined_block ls h c"
  using merge_down_fn_outcome [of h ls] fn_block_unique [of ls h] by (auto split: sum.splits)

lemma merge_down_fn_Inl_iff:
  "h < length ls \<Longrightarrow> merge_down_fn ls h = Inl e \<longleftrightarrow> e = IndexError \<and> (\<forall>c. \<not> fn_block ls h c)"
  using merge_down_fn_outcome [of h ls] by (auto split: sum.splits)

subsection \<open>The contract of an edit of the file\<close>

text \<open>
  \<open>line_count\<close>: an edit keeps the number of lines, so the positions the compiler reported
  for the original file stay valid for the edits after it. \<open>line_editing\<close>: moreover it
  touches nothing below its last row, and nothing at or above a terminator line that lies
  above its first row.
\<close>

locale line_count =
  fixes edit :: "'x \<Rightarrow> 's \<Rightarrow> 's res" and rows :: "'s \<Rightarrow> lines"
  assumes edit_length: "edit x s = Inr s' \<Longrightarrow> length (rows s') = length (rows s)"
begin

lemma edits_length: "res_fold edit xs s = Inr s' \<Longrightarrow> length (rows s') = length (rows s)"
  by (erule res_fold_invariant [where I = "\<lambda>t. length (rows t) = length (rows s)"]) (auto dest: edit_length)

end

locale line_editing = line_count edit rows for edit :: "'x \<Rightarrow> 's \<Rightarrow> 's res" and rows +
  fixes first_row :: "'x \<Rightarrow> nat" and last_row :: "'x \<Rightarrow> nat"
  assumes edit_above: "edit x s = Inr s' \<Longrightarrow> b < length (rows s) \<Longrightarrow> b < first_row x
      \<Longrightarrow> terminator (rows s ! b) \<Longrightarrow> i \<le> b \<Longrightarrow> rows s' ! i = rows s ! i"
    and edit_below: "edit x s = Inr s' \<Longrightarrow> last_row x < i \<Longrightarrow> i < length (rows s) \<Longrightarrow> rows s' ! i = rows s ! i"
begin

text \<open>A block that ends with a terminator line and that no edit overlaps stays as it is.\<close>

lemma edit_block:
  assumes "edit x s = Inr s'" "last_row x < a \<or> b < first_row x"
    and "terminator (rows s ! b)" "b < length (rows s)" "a \<le> i" "i \<le> b"
  shows "rows s' ! i = rows s ! i"
  using assms edit_above edit_below by (meson le_less_trans less_le_trans)

lemma edits_block:
  assumes "res_fold edit xs s = Inr s'"
    and "\<And>x. x \<in> set xs \<Longrightarrow> last_row x < a \<or> b < first_row x"
    and "terminator (rows s ! b)" "b < length (rows s)" "a \<le> b"
  shows "\<forall>i. a \<le> i \<longrightarrow> i \<le> b \<longrightarrow> rows s' ! i = rows s ! i"
proof -
  have "length (rows s') = length (rows s) \<and> (\<forall>i. a \<le> i \<longrightarrow> i \<le> b \<longrightarrow> rows s' ! i = rows s ! i)"
  proof (rule res_fold_invariant [OF assms(1)])
    fix x t t' assume x: "x \<in> set xs" and run: "edit x t = Inr t'"
      and I: "length (rows t) = length (rows s) \<and> (\<forall>i. a \<le> i \<longrightarrow> i \<le> b \<longrightarrow> rows t ! i = rows s ! i)"
    with assms(3-5) have b: "terminator (rows t ! b)" "b < length (rows t)" by simp_all
    have "rows t' ! i = rows s ! i" if "a \<le> i" "i \<le> b" for i
      using edit_block [OF run assms(2) [OF x] b that] I that by simp
    with edit_length [OF run] I
    show "length (rows t') = length (rows s) \<and> (\<forall>i. a \<le> i \<longrightarrow> i \<le> b \<longrightarrow> rows t' ! i = rows s ! i)" by simp
  qed simp
  then show ?thesis by simp
qed

end

lemma merge_down_var_succeeds:
  assumes "start \<le> length ls" "first_semicolon ls start k"
  shows "\<exists>r. merge_down_var ls start = Inr r"
proof -
  obtain ls1 c m where run: "merge_down_var_loop ls start '''' = (ls1, c, m)" by (metis prod_cases3)
  note spec = merge_down_var_loop_spec [OF run assms(1)]
  with assms(2) have "c \<le> k" "k < length ls" by (force simp: first_semicolon_def not_le)+
  with merge_down_var_loop_length [OF run] show ?thesis
    by (simp add: merge_down_var_def run list_get_def)
qed

subsection \<open>Properties\<close>

text \<open>\<open>merge_up_lines\<close> joins a declaration that spans several lines: it starts right after
  the nearest terminator line above, the joined lines become empty, all other lines stay.\<close>

theorem merge_up_joins:
  assumes "merge_up_lines ls row = Inr (ls', c)"
  shows "c \<le> row \<and> (c = 0 \<or> terminator (ls ! (c - 1))) \<and>
    (\<forall>i. c \<le> i \<and> i < row \<longrightarrow> \<not> terminator (ls ! i)) \<and>
    ls' ! c = replace '' ;'' '';'' (concat (map (\<lambda>i. strip (ls ! i) @ '' '') [c..<row]) @ strip (ls ! row)) @ [NL] \<and>
    (\<forall>i < length ls. i \<noteq> c \<longrightarrow> ls' ! i = (if c < i \<and> i \<le> row then '''' else ls ! i))"
  using merge_up_lines_spec [OF assms] by blast

theorem merge_up_joins_witness:
  "\<exists>ls' c. merge_up_lines [''}'', ''static int'', ''f(void)'', ''{''] 2 = Inr (ls', c) \<and> c \<le> 2"
proof -
  have "\<not> isl (merge_up_lines [''}'', ''static int'', ''f(void)'', ''{''] 2)" by code_simp
  then obtain ls' c where run: "merge_up_lines [''}'', ''static int'', ''f(void)'', ''{''] 2 = Inr (ls', c)"
    by (metis isl_def sum.exhaust prod.exhaust)
  with merge_up_joins [OF run] show ?thesis by blast
qed

text \<open>\<open>merge_down_var\<close> fails, with an \<open>IndexError\<close>, exactly when no line from the start of
  the definition on has a semicolon; otherwise it stops at the first such line.\<close>

theorem merge_down_var_outcome:
  assumes "start \<le> length ls"
  shows "(merge_down_var ls start = Inl IndexError \<longleftrightarrow> (\<forall>k. \<not> first_semicolon ls start k)) \<and>
    (\<forall>ls' c. merge_down_var ls start = Inr (ls', c) \<longrightarrow> first_semicolon ls start c \<and>
      ls' ! start = concat (map (\<lambda>i. strip (ls ! i) @ '' '') [start..<c]) @ ls ! c)"
proof -
  have spec: "first_semicolon ls start c \<and>
      ls' ! start = concat (map (\<lambda>i. strip (ls ! i) @ '' '') [start..<c]) @ ls ! c"
    if "merge_down_var ls start = Inr (ls', c)" for ls' c
    using merge_down_var_spec(1,2) [OF that assms] by blast
  show ?thesis
  proof (cases "merge_down_var ls start")
    case (Inl e)
    then have "\<forall>k. \<not> first_semicolon ls start k \<Longrightarrow> e = IndexError"
      using merge_down_var_fails [OF assms] by simp
    moreover have "e = IndexError" using Inl
      by (auto simp: merge_down_var_def list_get_def split: prod.splits if_splits)
    moreover have "\<not> first_semicolon ls start k" for k
      using Inl merge_down_var_succeeds [OF assms, of k] by auto
    ultimately show ?thesis using Inl by simp
  next
    case (Inr r)
    with spec show ?thesis by (cases r) auto
  qed
qed

theorem merge_down_var_outcome_witness:
  "merge_down_var [''int a'', ''= 1''] 0 = Inl IndexError \<longleftrightarrow> (\<forall>k. \<not> first_semicolon [''int a'', ''= 1''] 0 k)"
  using merge_down_var_outcome [of 0 "[''int a'', ''= 1'']"] by simp

text \<open>C34: \<open>merge_down_fn\<close>, in full. It returns exactly when the braces, counted from the line it
  starts at, are open and balanced at some line, and it reports the first such line; the
  definition is then one line, in place of its first: every line of it but the last one
  stripped and followed by a space, then the last one as it is. The other lines of the
  definition are blank and every line outside of it is unchanged. Without such a line the
  merge runs off the end of the file with an \<open>IndexError\<close>.\<close>

theorem merge_down_fn_balanced:
  assumes "start < length ls"
  shows "(merge_down_fn ls start = Inr (ls', c) \<longleftrightarrow>
      fn_block ls start c \<and> length ls' = length ls \<and>
      ls' ! start = concat (map (\<lambda>i. strip (ls ! i) @ '' '') [start..<c]) @ ls ! c \<and>
      (\<forall>i < length ls. i \<noteq> start \<longrightarrow> ls' ! i = (if start < i \<and> i \<le> c then '''' else ls ! i))) \<and>
    (merge_down_fn ls start = Inl e \<longleftrightarrow> e = IndexError \<and> (\<forall>c. \<not> fn_block ls start c))"
proof -
  have "ls' = joined_block ls start c \<longleftrightarrow> length ls' = length ls \<and> ls' ! start = joined_lines ls start c @ ls ! c \<and>
      (\<forall>i < length ls. i \<noteq> start \<longrightarrow> ls' ! i = (if start < i \<and> i \<le> c then '''' else ls ! i))"
    by (rule joined_block_iff [OF assms])
  then show ?thesis
    unfolding merge_down_fn_Inr_iff [OF assms] merge_down_fn_Inl_iff [OF assms] joined_lines_def by simp
qed

text \<open>The merge of an \<open>__init\<close> function of four lines\<close>

definition init_fn :: lines where
  "init_fn = [''void __init f(void)'' @ [NL], [CHR ''{'', NL], ''  g();'' @ [NL], [CHR ''}'', NL]]"

theorem merge_down_fn_balanced_witness:
  "fn_block init_fn 0 3 \<and> length init_fn = 4 \<and>
    fst (projr (merge_down_fn init_fn 0)) ! 0 =
      concat (map (\<lambda>i. strip (init_fn ! i) @ '' '') [0..<3]) @ init_fn ! 3 \<and>
    fst (projr (merge_down_fn init_fn 0)) ! 0 = ''void __init f(void) '' @ [CHR ''{''] @ '' g(); '' @ [CHR ''}'', NL]"
proof -
  have len: "0 < length init_fn" by (simp add: init_fn_def)
  let ?ls = "[''void __init f(void) '' @ [CHR ''{''] @ '' g(); '' @ [CHR ''}'', NL], '''', '''', '''']"
  have "isl (merge_down_fn init_fn 0) = False \<and> projr (merge_down_fn init_fn 0) = (?ls, 3)" by code_simp
  then have run: "merge_down_fn init_fn 0 = Inr (?ls, 3)" by (metis sum.collapse(2))
  note all = merge_down_fn_balanced [OF len, of ?ls 3 undefined, THEN conjunct1, THEN iffD1, OF run]
  show ?thesis
    using conjunct1 [OF all] conjunct1 [OF conjunct2 [OF conjunct2 [OF all]]] unfolding run by (simp add: init_fn_def)
qed

end
