(* ===== verification/Metadata.thy ===== *)
theory Metadata
  imports PyText
begin

text \<open>
  The data the three stages exchange. \<open>collect.py\<close> writes one \<open>.boundary\<close> file per
  compilation unit (the record \<open>meta\<close>), \<open>analyze.py\<close> reads them all together with the
  boundary configuration, \<open>extract.py\<close> reads the file of one unit.

  The configuration loader builds Python sets from YAML sequences, and Python fixes no order
  for the iteration of a set. The type \<open>py_set\<close> is such a set with the order in which the
  run iterates it: a list, of which the code's membership tests and set operations only see
  the elements. Every theorem holds for every such list, so for every order; the theory
  \<open>Orders\<close> says when two orders of the same sets give the same result.
\<close>

subsection \<open>Signatures and function metadata\<close>

text \<open>A signature is the pair of a symbol name and a file path; \<open>''?''\<close> is the unknown file.\<close>

type_synonym sig = "string \<times> string"

type_synonym loc = "nat \<times> nat"

record decl_str =
  ds_fn :: string
  ds_ret :: string
  ds_params :: string

record fn_meta =
  fn_name :: string
  fn_init :: bool
  fn_file :: string
  l_brace_loc :: loc
  r_brace_loc :: loc
  fn_name_loc :: loc
  fn_external :: bool
  fn_public :: bool
  fn_static :: bool
  fn_inline :: bool
  fn_weak :: bool
  fn_signature :: sig
  fn_decl_str :: "decl_str option"

record var_meta =
  var_name :: string
  var_file :: string
  var_name_loc :: loc
  decl_start_line :: nat
  var_external :: bool
  var_public :: bool
  var_static :: bool
  var_decl_str :: "string option"

text \<open>Call-graph edges: as collected, and with the callee resolved (\<open>None\<close>: not in the kernel's C code).\<close>

record raw_edge =
  re_from :: sig
  re_to :: sig

record edge =
  e_from :: sig
  e_to :: "sig option"

record struct_meta =
  all_fields :: "string list"
  public_fields :: "(string, sig list) dict"

record 'e meta =
  m_fn :: "fn_meta list"
  m_var :: "var_meta list"
  m_edge :: "'e list"
  m_callback :: "sig list"
  m_interface :: "sig list"
  m_struct :: "(string, struct_meta) dict"

text \<open>All metadata files, in the order \<open>all_meta_files\<close> enumerates them, by file name.\<close>

type_synonym raw_metas = "(string \<times> raw_edge meta) list"
type_synonym metas = "(string \<times> edge meta) list"

subsection \<open>Boundary configuration\<close>

text \<open>A Python set in the order of its iteration\<close>

type_synonym 'a py_set = "'a list"

record config =
  mod_files :: "string py_set"
  config_sidecar :: "sig py_set option"
  interface_prefix :: "string py_set"
  config_interface :: "string py_set"
  extra_public :: "string py_set"
  force_private :: "string py_set"

text \<open>
  The derived attributes the main block of \<open>analyze.py\<close> adds to the configuration. The lists
  \<open>mod_hdrs\<close>, \<open>mod_srcs\<close>, \<open>sdcr_srcs\<close> and \<open>all_files\<close> are built by iterating the sets, so their
  order is the one of the sets.
\<close>

definition sidecar :: "config \<Rightarrow> sig py_set" where
  "sidecar cfg = (case config_sidecar cfg of None \<Rightarrow> [] | Some s \<Rightarrow> s)"

definition mod_hdrs :: "config \<Rightarrow> string list" where
  "mod_hdrs cfg = filter (\<lambda>f. ends_with f ''.h'') (mod_files cfg)"

definition mod_srcs :: "config \<Rightarrow> string list" where
  "mod_srcs cfg = filter (\<lambda>f. ends_with f ''.c'') (mod_files cfg)"

definition sdcr_srcs :: "config \<Rightarrow> string list" where
  "sdcr_srcs cfg = map snd (sidecar cfg)"

definition all_files :: "config \<Rightarrow> string list" where
  "all_files cfg = mod_hdrs cfg @ mod_srcs cfg @ sdcr_srcs cfg"

text \<open>
  \<open>{basename(f): f for f in all_files}\<close>: where two files share a base name the later one
  overwrites the earlier.
\<close>

definition fullname :: "config \<Rightarrow> string \<rightharpoonup> string" where
  "fullname cfg = map_of (rev (map (\<lambda>f. (basename f, f)) (all_files cfg)))"

lemma set_all_files: "f \<in> set (all_files cfg) \<longleftrightarrow>
    (f \<in> set (mod_files cfg) \<and> (ends_with f ''.h'' \<or> ends_with f ''.c'')) \<or> f \<in> set (sdcr_srcs cfg)"
  by (auto simp: all_files_def mod_hdrs_def mod_srcs_def)

lemma mod_hdrs_subset: "set (mod_hdrs cfg) \<subseteq> set (mod_files cfg)"
  by (auto simp: mod_hdrs_def)

lemma fullname_in_all_files: "fullname cfg b = Some f \<Longrightarrow> f \<in> set (all_files cfg)"
  by (auto simp: fullname_def dest: map_of_SomeD)

lemma fullname_basename: "fullname cfg b = Some f \<Longrightarrow> basename f = b"
  by (auto simp: fullname_def dest: map_of_SomeD)

end
