(* ===== verification/Linkage.thy ===== *)
theory Linkage
  imports Metadata "HOL-Library.Char_ord" "HOL-Library.List_Lexorder" "HOL-Library.Product_Lexorder"
begin

text \<open>
  First pass of \<open>boundary/analyze.py\<close>: the initial function classes, and the linker's
  choice among several global definitions of a name (\<open>global_fn_dict\<close>), with
  \<open>lookup_if_global\<close> that the second pass uses on it.
\<close>

subsection \<open>Definition strength\<close>

text \<open>\<open>STRONG = 1\<close>, \<open>WEAK_ARCH = 2\<close>, \<open>WEAK_NORM = 3\<close>; the code compares the numbers.\<close>

datatype prio = STRONG | WEAK_ARCH | WEAK_NORM

fun prio_val :: "prio \<Rightarrow> nat" where
  "prio_val STRONG = 1"
| "prio_val WEAK_ARCH = 2"
| "prio_val WEAK_NORM = 3"

lemma prio_val_inj: "prio_val p = prio_val q \<Longrightarrow> p = q"
  by (cases p; cases q) auto

instantiation prio :: linorder
begin

definition less_eq_prio :: "prio \<Rightarrow> prio \<Rightarrow> bool" where
  "less_eq_prio p q = (prio_val p \<le> prio_val q)"

definition less_prio :: "prio \<Rightarrow> prio \<Rightarrow> bool" where
  "less_prio p q = (prio_val p < prio_val q)"

instance
  by standard (auto simp: less_eq_prio_def less_prio_def dest: prio_val_inj)

end

lemma STRONG_least [simp]: "STRONG \<le> p"
  by (cases p) (simp_all add: less_eq_prio_def)

subsection \<open>The function classes\<close>

text \<open>
  \<open>func_class\<close>, a dictionary whose keys the code reads as attributes. The first eight
  are created empty; the others are assigned by \<open>find_in_vmlinux\<close>'s caller and by
  \<open>func_class_arithmetics\<close> before they are read.
\<close>

record func_class =
  fn :: "sig set"
  init :: "sig set"
  mod_fns :: "sig set"
  callback :: "sig set"
  sdcr_fns :: "sig set"
  interface :: "sig set"
  weak :: "sig set"
  fake_global :: "sig set"
  in_vmlinux :: "sig set"
  mangled :: "sig set"
  export :: "sig set"
  cb_opt :: "sig set"
  border :: "sig set"
  initial_insider :: "sig set"
  fc_sidecar :: "sig set"
  sdcr_left :: "sig set"
  sdcr_out :: "sig set"
  inflect_cut :: "sig set"
  insider :: "sig set"
  sched_outsider :: "sig set"
  outsider_opt :: "sig set"
  public_user :: "sig set"
  tainted :: "sig set"
  und :: "sig set"

definition empty_func_class :: func_class where
  "empty_func_class =
     \<lparr>fn = {}, init = {}, mod_fns = {}, callback = {}, sdcr_fns = {}, interface = {}, weak = {},
      fake_global = {}, in_vmlinux = {}, mangled = {}, export = {}, cb_opt = {}, border = {},
      initial_insider = {}, fc_sidecar = {}, sdcr_left = {}, sdcr_out = {}, inflect_cut = {},
      insider = {}, sched_outsider = {}, outsider_opt = {}, public_user = {}, tainted = {}, und = {}\<rparr>"

type_synonym global_defs = "(string, (prio \<times> string) set) dict"
type_synonym global_dict = "(string, string) dict"

record pass1 =
  p1_class :: func_class
  p1_globals :: global_defs
  p1_decls :: "sig \<rightharpoonup> decl_str option"
  p1_hdr_fns :: "fn_meta list"

definition empty_pass1 :: pass1 where
  "empty_pass1 = \<lparr>p1_class = empty_func_class, p1_globals = [], p1_decls = Map.empty, p1_hdr_fns = []\<rparr>"

subsection \<open>First pass\<close>

text \<open>\<open>global_fn_dict[name].add(x)\<close>\<close>

definition globals_add :: "string \<Rightarrow> prio \<times> string \<Rightarrow> global_defs \<Rightarrow> global_defs res" where
  "globals_add name x d =
     (case map_of d name of
        None \<Rightarrow> Inl (KeyError name)
      | Some s \<Rightarrow> Inr (AList.update name (insert x s) d))"

definition collect_global :: "fn_meta \<Rightarrow> global_defs \<Rightarrow> global_defs res" where
  "collect_global f d =
     (if \<not> fn_public f then Inr d
      else
        let d' = (if fn_weak f \<or> ends_with (fn_file f) ''.c''
                  then dict_setdefault (fn_name f) {} d else d)
        in if fn_weak f \<and> starts_with (fn_file f) ''arch/''
           then globals_add (fn_name f) (WEAK_ARCH, fn_file f) d'
           else if fn_weak f then globals_add (fn_name f) (WEAK_NORM, fn_file f) d'
           else if ends_with (fn_file f) ''.c'' then globals_add (fn_name f) (STRONG, fn_file f) d'
           else Inr d')"

definition collect_class :: "config \<Rightarrow> fn_meta \<Rightarrow> func_class \<Rightarrow> func_class" where
  "collect_class cfg f c =
     c\<lparr>fn := insert (fn_signature f) (fn c),
       mod_fns := (if fn_file f \<in> set (mod_files cfg) then insert (fn_signature f) (mod_fns c) else mod_fns c),
       sdcr_fns := (if fn_file f \<in> set (sdcr_srcs cfg) then insert (fn_signature f) (sdcr_fns c) else sdcr_fns c),
       init := (if fn_init f then insert (fn_signature f) (init c) else init c),
       weak := (if fn_weak f then insert (fn_signature f) (weak c) else weak c)\<rparr>"

definition first_pass_fn :: "config \<Rightarrow> fn_meta \<Rightarrow> pass1 \<Rightarrow> pass1 res" where
  "first_pass_fn cfg f s =
     res_bind (collect_global f (p1_globals s)) (\<lambda>d.
       Inr \<lparr>p1_class = collect_class cfg f (p1_class s),
            p1_globals = d,
            p1_decls = (if fn_file f \<in> set (mod_files cfg) \<or> fn_file f \<in> set (sdcr_srcs cfg)
                        then (p1_decls s)(fn_signature f \<mapsto> fn_decl_str f) else p1_decls s),
            p1_hdr_fns = (if fn_file f \<in> set (mod_hdrs cfg) then p1_hdr_fns s @ [f] else p1_hdr_fns s)\<rparr>)"

definition add_interfaces :: "sig list \<Rightarrow> pass1 \<Rightarrow> pass1" where
  "add_interfaces xs s =
     s\<lparr>p1_class := (p1_class s)\<lparr>interface := interface (p1_class s) \<union> set xs\<rparr>\<rparr>"

definition first_pass_meta :: "config \<Rightarrow> 'e meta \<Rightarrow> pass1 \<Rightarrow> pass1 res" where
  "first_pass_meta cfg m s =
     res_map (add_interfaces (m_interface m)) (res_fold (first_pass_fn cfg) (m_fn m) s)"

definition first_pass :: "config \<Rightarrow> 'e meta list \<Rightarrow> pass1 res" where
  "first_pass cfg ms = res_fold (first_pass_meta cfg) ms empty_pass1"

subsection \<open>The linker's choice\<close>

record linkage =
  global_fn_dict :: global_dict
  fake :: "sig set"
  warnings :: "string list"

definition link_name :: "string \<times> (prio \<times> string) set \<Rightarrow> linkage \<Rightarrow> linkage res" where
  "link_name = (\<lambda>(name, defs) l.
     (case sorted_list_of_set defs of
        [] \<Rightarrow> Inl IndexError
      | (p, f) # rest \<Rightarrow>
          Inr \<lparr>global_fn_dict = global_fn_dict l @ [(name, f)],
               fake = fake l \<union> set (map (\<lambda>(_, file). (name, file))
                        (filter (\<lambda>(prio, _). prio = WEAK_ARCH \<or> prio = WEAK_NORM) rest)),
               warnings = (if name \<noteq> ''main'' \<and> rest \<noteq> [] \<and> p = fst (hd rest)
                           then warnings l @ [name] else warnings l)\<rparr>))"

definition link_globals :: "global_defs \<Rightarrow> linkage res" where
  "link_globals d = res_fold link_name d \<lparr>global_fn_dict = [], fake = {}, warnings = []\<rparr>"

text \<open>\<open>lookup_if_global\<close>\<close>

definition lookup_if_global :: "global_dict \<Rightarrow> sig \<Rightarrow> sig option" where
  "lookup_if_global d = (\<lambda>(name, file).
     (case (if file = ''?'' then map_of d name else Some file) of
        None \<Rightarrow> None
      | Some f \<Rightarrow> if f = '''' then None else Some (name, f)))"

subsection \<open>What the first pass computes\<close>

text \<open>
  A function of the metadata defines its name globally if it is public and weak, or public
  and in a C file; its strength depends on its weakness and its directory.
\<close>

definition is_global_def :: "fn_meta \<Rightarrow> bool" where
  "is_global_def f = (fn_public f \<and> (fn_weak f \<or> ends_with (fn_file f) ''.c''))"

definition def_prio :: "fn_meta \<Rightarrow> prio" where
  "def_prio f = (if \<not> fn_weak f then STRONG
                 else if starts_with (fn_file f) ''arch/'' then WEAK_ARCH else WEAK_NORM)"

definition global_definitions :: "fn_meta list \<Rightarrow> string \<Rightarrow> (prio \<times> string) set" where
  "global_definitions fs name =
     (\<lambda>f. (def_prio f, fn_file f)) ` {f \<in> set fs. is_global_def f \<and> fn_name f = name}"

definition globals_inv :: "fn_meta list \<Rightarrow> global_defs \<Rightarrow> bool" where
  "globals_inv fs d \<longleftrightarrow> distinct (map fst d) \<and>
     (\<forall>name. map_of d name =
        (if global_definitions fs name = {} then None else Some (global_definitions fs name)))"

definition class_of :: "config \<Rightarrow> fn_meta list \<Rightarrow> sig set \<Rightarrow> func_class" where
  "class_of cfg fs is = empty_func_class
     \<lparr>fn := fn_signature ` set fs,
      init := fn_signature ` {f \<in> set fs. fn_init f},
      mod_fns := fn_signature ` {f \<in> set fs. fn_file f \<in> set (mod_files cfg)},
      sdcr_fns := fn_signature ` {f \<in> set fs. fn_file f \<in> set (sdcr_srcs cfg)},
      weak := fn_signature ` {f \<in> set fs. fn_weak f},
      interface := is\<rparr>"

definition decls_of :: "config \<Rightarrow> fn_meta list \<Rightarrow> sig \<rightharpoonup> decl_str option" where
  "decls_of cfg fs = map_of (rev (map (\<lambda>f. (fn_signature f, fn_decl_str f))
     (filter (\<lambda>f. fn_file f \<in> set (mod_files cfg) \<or> fn_file f \<in> set (sdcr_srcs cfg)) fs)))"

definition pass1_inv :: "config \<Rightarrow> fn_meta list \<Rightarrow> sig set \<Rightarrow> pass1 \<Rightarrow> bool" where
  "pass1_inv cfg fs is s \<longleftrightarrow>
     p1_class s = class_of cfg fs is \<and> globals_inv fs (p1_globals s) \<and>
     p1_decls s = decls_of cfg fs \<and>
     p1_hdr_fns s = filter (\<lambda>f. fn_file f \<in> set (mod_hdrs cfg)) fs"

lemma finite_global_definitions [simp]: "finite (global_definitions fs name)"
  by (simp add: global_definitions_def)

lemma global_definitions_snoc:
  "global_definitions (fs @ [f]) name =
     (if is_global_def f \<and> fn_name f = name
      then insert (def_prio f, fn_file f) (global_definitions fs name)
      else global_definitions fs name)"
  by (auto simp: global_definitions_def)

lemma collect_global_inv:
  assumes "globals_inv fs d"
  shows "\<exists>d'. collect_global f d = Inr d' \<and> globals_inv (fs @ [f]) d'"
proof (cases "is_global_def f")
  case False
  with assms show ?thesis
    by (auto simp: collect_global_def is_global_def_def globals_inv_def global_definitions_snoc)
next
  case True
  define d1 where "d1 = dict_setdefault (fn_name f) {} d"
  define defs where "defs = global_definitions fs (fn_name f)"
  from assms have dist: "distinct (map fst d)" and
    map: "map_of d n = (if global_definitions fs n = {} then None else Some (global_definitions fs n))" for n
    by (simp_all add: globals_inv_def)
  have d1: "map_of d1 = (map_of d)(fn_name f \<mapsto> defs)" "distinct (map fst d1)"
    using dist map [of "fn_name f"] by (auto simp: d1_def defs_def fun_eq_iff)
  let ?d' = "AList.update (fn_name f) (insert (def_prio f, fn_file f) defs) d1"
  have "collect_global f d = Inr ?d'"
    using True d1 by (auto simp: collect_global_def is_global_def_def def_prio_def globals_add_def d1_def [symmetric])
  moreover have "globals_inv (fs @ [f]) ?d'"
    using True map d1 by (auto simp: globals_inv_def global_definitions_snoc defs_def)
  ultimately show ?thesis by blast
qed

lemma collect_class_inv: "collect_class cfg f (class_of cfg fs is) = class_of cfg (fs @ [f]) is"
  by (auto simp: collect_class_def class_of_def empty_func_class_def)

lemma first_pass_fn_inv:
  assumes "pass1_inv cfg fs is s"
  shows "\<exists>s'. first_pass_fn cfg f s = Inr s' \<and> pass1_inv cfg (fs @ [f]) is s'"
proof -
  from assms have "globals_inv fs (p1_globals s)" by (simp add: pass1_inv_def)
  from collect_global_inv [OF this, of f] obtain d where
    "collect_global f (p1_globals s) = Inr d" "globals_inv (fs @ [f]) d" by blast
  with assms show ?thesis
    by (auto simp: first_pass_fn_def pass1_inv_def collect_class_inv decls_of_def)
qed

definition all_interfaces :: "'e meta list \<Rightarrow> sig set" where
  "all_interfaces ms = (\<Union>m \<in> set ms. set (m_interface m))"

definition all_fns :: "'e meta list \<Rightarrow> fn_meta list" where
  "all_fns ms = concat (map m_fn ms)"

lemma all_fns_simps [simp]:
  "all_fns [] = []"
  "all_fns (ms @ [m]) = all_fns ms @ m_fn m"
  by (simp_all add: all_fns_def)

lemma all_interfaces_simps [simp]:
  "all_interfaces [] = {}"
  "all_interfaces (ms @ [m]) = all_interfaces ms \<union> set (m_interface m)"
  by (auto simp: all_interfaces_def)

lemma add_interfaces_inv:
  "pass1_inv cfg fs is s \<Longrightarrow> pass1_inv cfg fs (is \<union> set xs) (add_interfaces xs s)"
  by (simp add: add_interfaces_def pass1_inv_def class_of_def empty_func_class_def)

lemma first_pass_meta_inv:
  assumes "pass1_inv cfg (all_fns ms) (all_interfaces ms) s"
  shows "\<exists>s'. first_pass_meta cfg m s = Inr s' \<and>
    pass1_inv cfg (all_fns (ms @ [m])) (all_interfaces (ms @ [m])) s'"
proof -
  obtain t where t: "res_fold (first_pass_fn cfg) (m_fn m) s = Inr t"
    "pass1_inv cfg (all_fns ms @ m_fn m) (all_interfaces ms) t"
    using res_fold_trace [of "\<lambda>fs. pass1_inv cfg fs (all_interfaces ms)", OF assms]
      first_pass_fn_inv by metis
  from add_interfaces_inv [OF t(2)] t(1) show ?thesis
    by (simp add: first_pass_meta_def)
qed

lemma first_pass_inv:
  "\<exists>s. first_pass cfg ms = Inr s \<and> pass1_inv cfg (all_fns ms) (all_interfaces ms) s"
proof -
  have "pass1_inv cfg (all_fns []) (all_interfaces []) empty_pass1"
    by (simp add: pass1_inv_def empty_pass1_def class_of_def empty_func_class_def globals_inv_def
        global_definitions_def decls_of_def)
  from res_fold_trace [of "\<lambda>ms. pass1_inv cfg (all_fns ms) (all_interfaces ms)", OF this]
    first_pass_meta_inv
  show ?thesis by (fastforce simp: first_pass_def)
qed

subsection \<open>What the linker choice computes\<close>

definition strongest :: "(prio \<times> string) set \<Rightarrow> prio \<times> string" where
  "strongest defs = Min defs"

definition fake_of :: "string \<times> (prio \<times> string) set \<Rightarrow> sig set" where
  "fake_of = (\<lambda>(name, defs). {(name, f) | p f. (p, f) \<in> defs \<and> p \<noteq> STRONG \<and> (p, f) \<noteq> strongest defs})"

definition defs_ok :: "global_defs \<Rightarrow> bool" where
  "defs_ok d \<longleftrightarrow> (\<forall>(name, defs) \<in> set d. finite defs \<and> defs \<noteq> {})"

lemma not_STRONG_iff: "p = WEAK_ARCH \<or> p = WEAK_NORM \<longleftrightarrow> p \<noteq> STRONG"
  by (cases p) auto

lemma sorted_list_of_set_Cons_Min:
  assumes "finite A" "A \<noteq> {}"
  shows "sorted_list_of_set A = Min A # sorted_list_of_set (A - {Min A})"
  using assms by (rule sorted_list_of_set_nonempty)

lemma link_name_eq:
  assumes "finite defs" "defs \<noteq> {}"
  shows "\<exists>w. link_name (name, defs) l =
    Inr \<lparr>global_fn_dict = global_fn_dict l @ [(name, snd (strongest defs))],
         fake = fake l \<union> fake_of (name, defs), warnings = w\<rparr>"
proof -
  obtain p f where pf: "Min defs = (p, f)" by fastforce
  have "set (map (\<lambda>(_, file). (name, file)) (filter (\<lambda>(prio, _). prio = WEAK_ARCH \<or> prio = WEAK_NORM)
      (sorted_list_of_set (defs - {(p, f)})))) = fake_of (name, defs)"
    using assms pf by (auto simp: fake_of_def strongest_def not_STRONG_iff image_iff)
  with assms pf show ?thesis
    by (auto simp: link_name_def strongest_def sorted_list_of_set_Cons_Min)
qed

lemma link_globals_eq:
  assumes "defs_ok d"
  shows "\<exists>w. link_globals d =
    Inr \<lparr>global_fn_dict = map (\<lambda>(name, defs). (name, snd (strongest defs))) d,
         fake = (\<Union>x \<in> set d. fake_of x), warnings = w\<rparr>"
proof -
  define I where "I = (\<lambda>d (l :: linkage). global_fn_dict l = map (\<lambda>(name, defs). (name, snd (strongest defs))) d \<and>
      fake l = (\<Union>x \<in> set d. fake_of x))"
  have "\<exists>t. res_fold link_name d \<lparr>global_fn_dict = [], fake = {}, warnings = []\<rparr> = Inr t \<and> I ([] @ d) t"
  proof (rule res_fold_trace)
    fix ys x l assume x: "x \<in> set d" and I: "I ys l"
    obtain name defs where xe: "x = (name, defs)" by fastforce
    with assms x have "finite defs" "defs \<noteq> {}" by (auto simp: defs_ok_def)
    from link_name_eq [OF this, of name l] xe I
    show "\<exists>l'. link_name x l = Inr l' \<and> I (ys @ [x]) l'"
      by (auto simp: I_def)
  qed (simp add: I_def)
  then obtain t where t: "link_globals d = Inr t" "I d t" by (auto simp: link_globals_def)
  then show ?thesis by (cases t) (simp add: I_def)
qed

lemma fake_of_iff:
  "(n, f) \<in> fake_of (name, defs) \<longleftrightarrow> n = name \<and> (\<exists>p. (p, f) \<in> defs \<and> p \<noteq> STRONG \<and> (p, f) \<noteq> strongest defs)"
  by (auto simp: fake_of_def)

lemma globals_inv_mem:
  assumes "globals_inv fs d"
  shows "(name, defs) \<in> set d \<longleftrightarrow> defs = global_definitions fs name \<and> defs \<noteq> {}"
proof -
  from assms have "distinct (map fst d)" and
    map: "map_of d name = (if global_definitions fs name = {} then None else Some (global_definitions fs name))"
    by (simp_all add: globals_inv_def)
  from this(1) have "(name, defs) \<in> set d \<longleftrightarrow> map_of d name = Some defs" by simp
  with map show ?thesis by (auto split: if_splits)
qed

lemma globals_inv_defs_ok: "globals_inv fs d \<Longrightarrow> defs_ok d"
  by (auto simp: defs_ok_def globals_inv_mem)

text \<open>The file the linker takes for a global name: the strongest definition, ties by path.\<close>

definition linked_file :: "fn_meta list \<Rightarrow> string \<Rightarrow> string option" where
  "linked_file fs name =
     (if global_definitions fs name = {} then None
      else Some (snd (strongest (global_definitions fs name))))"

definition overridden :: "fn_meta list \<Rightarrow> sig set" where
  "overridden fs = {(name, f). \<exists>p. (p, f) \<in> global_definitions fs name \<and> p \<noteq> STRONG \<and>
     (p, f) \<noteq> strongest (global_definitions fs name)}"

lemma globals_inv_link:
  assumes "globals_inv fs d"
  shows "\<exists>l. link_globals d = Inr l \<and> map_of (global_fn_dict l) = linked_file fs \<and> fake l = overridden fs"
proof -
  from link_globals_eq [OF globals_inv_defs_ok [OF assms]] obtain l where l: "link_globals d = Inr l"
    "global_fn_dict l = map (\<lambda>(name, defs). (name, snd (strongest defs))) d"
    "fake l = (\<Union>x \<in> set d. fake_of x)" by auto
  have "map_of (global_fn_dict l) name = linked_file fs name" for name
    using assms by (simp add: l(2) map_of_map globals_inv_def linked_file_def)
  moreover have "(name, f) \<in> fake l \<longleftrightarrow> (name, f) \<in> overridden fs" for name f
  proof -
    have "(name, f) \<in> fake l \<longleftrightarrow> (\<exists>defs. (name, defs) \<in> set d \<and> (name, f) \<in> fake_of (name, defs))"
      unfolding l(3) by (auto simp: fake_of_iff) (auto simp: fake_of_iff intro!: bexI)
    also have "\<dots> \<longleftrightarrow> (name, f) \<in> overridden fs"
      by (auto simp: globals_inv_mem [OF assms] fake_of_iff overridden_def)
    finally show ?thesis .
  qed
  then have "fake l = overridden fs" by auto
  ultimately show ?thesis using l(1) by auto
qed

subsection \<open>Properties\<close>

text \<open>C14: the first pass and the linker choice never raise; each globally defined name is
  bound to the file of its strongest definition (ties broken by the path), and the
  overridden definitions are exactly the weak ones that lost.\<close>

theorem link_refines_spec:
  "\<exists>p l. first_pass cfg ms = Inr p \<and> link_globals (p1_globals p) = Inr l \<and>
    map_of (global_fn_dict l) = linked_file (all_fns ms) \<and> fake l = overridden (all_fns ms) \<and>
    p1_class p = class_of cfg (all_fns ms) (all_interfaces ms)"
proof -
  from first_pass_inv [of cfg ms] obtain p where p: "first_pass cfg ms = Inr p"
    "pass1_inv cfg (all_fns ms) (all_interfaces ms) p" by blast
  then have "globals_inv (all_fns ms) (p1_globals p)" by (simp add: pass1_inv_def)
  from globals_inv_link [OF this] p show ?thesis by (auto simp: pass1_inv_def)
qed

end
