(* ===== verification/Vmlinux.thy ===== *)
theory Vmlinux
  imports Linkage
begin

text \<open>
  \<open>find_in_vmlinux\<close> of \<open>boundary/analyze.py\<close>: the scan of the symbol table that
  \<open>readelf\<close> prints for the kernel image. The output lines are a parameter. The local
  variables of the loop are the record \<open>vm_state\<close>; \<open>vm_file\<close> is \<open>None\<close> until the first
  \<open>FILE\<close> symbol, where Python has no binding for \<open>filename\<close>.
\<close>

record vm_state =
  vm_file :: "string option"
  fn_pos :: "string \<Rightarrow> nat"
  vm_in_vmlinux :: "sig set"
  vm_mangled :: "sig set"
  local_sympos :: "sig \<rightharpoonup> nat"
  vm_export :: "sig set"

definition vm_init :: vm_state where
  "vm_init = \<lparr>vm_file = None, fn_pos = (\<lambda>_. 0), vm_in_vmlinux = {}, vm_mangled = {},
     local_sympos = Map.empty, vm_export = {}\<rparr>"

definition get_in_any :: "sig set \<Rightarrow> string \<Rightarrow> string list \<Rightarrow> string option" where
  "get_in_any fns f files = find (\<lambda>file. (f, file) \<in> fns) files"

definition vm_filename :: "vm_state \<Rightarrow> string res" where
  "vm_filename s = (case vm_file s of None \<Rightarrow> Inl UnboundLocalError | Some f \<Rightarrow> Inr f)"

definition vm_set_file :: "config \<Rightarrow> string \<Rightarrow> vm_state \<Rightarrow> vm_state" where
  "vm_set_file cfg key s =
     s\<lparr>vm_file := Some (case fullname cfg key of None \<Rightarrow> key | Some f \<Rightarrow> f)\<rparr>"

text \<open>\<open>__ksymtab_f\<close> marks \<open>f\<close> as exported.\<close>

definition vm_notype :: "config \<Rightarrow> sig set \<Rightarrow> string \<Rightarrow> vm_state \<Rightarrow> vm_state res" where
  "vm_notype cfg fns key s =
     (if \<not> starts_with key ''__ksymtab_'' then Inr s
      else res_bind (vm_filename s) (\<lambda>filename.
        if filename \<notin> set (mod_files cfg) then Inr s
        else
          let key' = drop (length ''__ksymtab_'') key
          in case get_in_any fns key' (mod_files cfg) of
               None \<Rightarrow> Inr s
             | Some file \<Rightarrow>
                 Inr (if file = [] then s else s\<lparr>vm_export := insert (key', file) (vm_export s)\<rparr>)))"

definition vm_func :: "config \<Rightarrow> sig set \<Rightarrow> string \<Rightarrow> string \<Rightarrow> vm_state \<Rightarrow> vm_state res" where
  "vm_func cfg fns scope key s =
     res_bind (vm_filename s) (\<lambda>filename.
       if contains key ''.'' then
         Inr (if contains key ''.cold'' then s
              else s\<lparr>vm_mangled := insert (takeWhile (\<lambda>c. c \<noteq> CHR ''.'') key, filename) (vm_mangled s)\<rparr>)
       else if scope = ''LOCAL'' then
         let s' = s\<lparr>fn_pos := (fn_pos s)(key := fn_pos s key + 1)\<rparr>
         in if filename \<notin> set (all_files cfg) then Inr s'
            else case (if (key, filename) \<notin> fns then get_in_any fns key (mod_hdrs cfg) else Some filename) of
                   None \<Rightarrow> Inr s'
                 | Some file \<Rightarrow>
                     Inr (s'\<lparr>local_sympos := (local_sympos s')((key, file) \<mapsto> fn_pos s' key),
                             vm_in_vmlinux := insert (key, file) (vm_in_vmlinux s')\<rparr>)
       else case get_in_any fns key (all_files cfg) of
              None \<Rightarrow> Inr s
            | Some file \<Rightarrow> Inr (s\<lparr>vm_in_vmlinux := insert (key, file) (vm_in_vmlinux s)\<rparr>))"

definition vm_line :: "config \<Rightarrow> sig set \<Rightarrow> string \<Rightarrow> vm_state \<Rightarrow> vm_state res" where
  "vm_line cfg fns line s =
     (let fields = split_ws line
      in if length fields \<noteq> 8 then Inr s
         else
           let symtype = fields ! 3; scope = fields ! 4; key = fields ! 7
           in if symtype = ''FILE'' then Inr (vm_set_file cfg key s)
              else if symtype = ''NOTYPE'' then vm_notype cfg fns key s
              else if symtype \<noteq> ''FUNC'' then Inr s
              else vm_func cfg fns scope key s)"

definition find_in_vmlinux :: "config \<Rightarrow> sig set \<Rightarrow> string list \<Rightarrow> vm_state res" where
  "find_in_vmlinux cfg fns lines = res_fold (vm_line cfg fns) (drop 3 lines) vm_init"

subsection \<open>Which functions are found\<close>

lemma get_in_any_Some:
  "get_in_any fns f files = Some file \<Longrightarrow> (f, file) \<in> fns \<and> file \<in> set files"
  by (auto simp: get_in_any_def find_Some_iff)

lemma get_in_any_None: "get_in_any fns f files = None \<longleftrightarrow> (\<forall>file \<in> set files. (f, file) \<notin> fns)"
  by (auto simp: get_in_any_def find_None_iff)

lemma mod_hdrs_all_files: "f \<in> set (mod_hdrs cfg) \<Longrightarrow> f \<in> set (all_files cfg)"
  by (simp add: all_files_def)

text \<open>
  The record of found functions: each is a known function of a file of the boundary
  whose symbol is not mangled; a function with a symbol position is one of them, and the
  position is between 1 and the number of local symbols of its name so far.
\<close>

definition vm_inv :: "config \<Rightarrow> sig set \<Rightarrow> vm_state \<Rightarrow> bool" where
  "vm_inv cfg fns s \<longleftrightarrow>
     (\<forall>(f, file) \<in> vm_in_vmlinux s. (f, file) \<in> fns \<and> file \<in> set (all_files cfg) \<and> \<not> contains f ''.'') \<and>
     (\<forall>(f, file) \<in> vm_export s. (f, file) \<in> fns \<and> file \<in> set (mod_files cfg)) \<and>
     (\<forall>(f, file) \<in> vm_mangled s. \<not> contains f ''.'') \<and>
     (\<forall>f file n. local_sympos s (f, file) = Some n \<longrightarrow>
        (f, file) \<in> vm_in_vmlinux s \<and> 1 \<le> n \<and> n \<le> fn_pos s f)"

lemma vm_inv_init [simp]: "vm_inv cfg fns vm_init"
  by (simp add: vm_inv_def vm_init_def)

lemma vm_inv_set_file [simp]: "vm_inv cfg fns (vm_set_file cfg' key s) = vm_inv cfg fns s"
  by (simp add: vm_inv_def vm_set_file_def)

lemma vm_inv_notype:
  "vm_notype cfg fns key s = Inr s' \<Longrightarrow> vm_inv cfg fns s \<Longrightarrow> vm_inv cfg fns s'"
  by (auto simp: vm_notype_def res_elims Let_def vm_inv_def
      split: if_splits option.splits dest!: get_in_any_Some)

lemma no_dot_takeWhile: "\<not> contains (takeWhile (\<lambda>c. c \<noteq> CHR ''.'') key) ''.''"
  by (auto simp: contains_char dest: set_takeWhileD)

lemma vm_inv_add_mangled:
  "vm_inv cfg fns s \<Longrightarrow> vm_inv cfg fns (s\<lparr>vm_mangled := insert (takeWhile (\<lambda>c. c \<noteq> CHR ''.'') key, g) (vm_mangled s)\<rparr>)"
  by (simp add: vm_inv_def no_dot_takeWhile)

lemma vm_inv_bump_pos:
  assumes "vm_inv cfg fns s"
  shows "vm_inv cfg fns (s\<lparr>fn_pos := (fn_pos s)(key := Suc (fn_pos s key))\<rparr>)"
proof -
  have "n \<le> fn_pos s f \<Longrightarrow> n \<le> ((fn_pos s)(key := Suc (fn_pos s key))) f" for n f by auto
  with assms show ?thesis unfolding vm_inv_def by (simp del: fun_upd_apply)
qed

lemma vm_inv_add_found:
  assumes "vm_inv cfg fns s" "(key, g) \<in> fns" "g \<in> set (all_files cfg)" "\<not> contains key ''.''"
  shows "vm_inv cfg fns (s\<lparr>vm_in_vmlinux := insert (key, g) (vm_in_vmlinux s)\<rparr>)"
  using assms by (simp add: vm_inv_def)

lemma vm_inv_set_pos:
  assumes "vm_inv cfg fns s" "(key, g) \<in> vm_in_vmlinux s" "1 \<le> fn_pos s key"
  shows "vm_inv cfg fns (s\<lparr>local_sympos := (local_sympos s)((key, g) \<mapsto> fn_pos s key)\<rparr>)"
proof -
  have "((local_sympos s)((key, g) \<mapsto> fn_pos s key)) (f, h) = Some n \<Longrightarrow>
      (f, h) \<in> vm_in_vmlinux s \<and> 1 \<le> n \<and> n \<le> fn_pos s f" for f h n
  proof (cases "(f, h) = (key, g)")
    case False
    assume "((local_sympos s)((key, g) \<mapsto> fn_pos s key)) (f, h) = Some n"
    with False have "local_sympos s (f, h) = Some n" by (auto split: if_splits)
    with assms(1) show ?thesis unfolding vm_inv_def by blast
  qed (use assms(2,3) in auto)
  with assms(1) show ?thesis by (simp add: vm_inv_def del: fun_upd_apply)
qed

lemma vm_inv_add_local:
  assumes "vm_inv cfg fns s" "(key, g) \<in> fns" "g \<in> set (all_files cfg)" "\<not> contains key ''.''"
  shows "vm_inv cfg fns (s\<lparr>fn_pos := (fn_pos s)(key := Suc (fn_pos s key)),
            local_sympos := (local_sympos s)((key, g) \<mapsto> Suc (fn_pos s key)),
            vm_in_vmlinux := insert (key, g) (vm_in_vmlinux s)\<rparr>)"
proof -
  let ?t = "s\<lparr>fn_pos := (fn_pos s)(key := Suc (fn_pos s key)), vm_in_vmlinux := insert (key, g) (vm_in_vmlinux s)\<rparr>"
  have "vm_inv cfg fns ?t"
    using vm_inv_add_found [OF vm_inv_bump_pos [OF assms(1)] assms(2-4), of key] by simp
  from vm_inv_set_pos [OF this, of key g]
  have "vm_inv cfg fns (?t\<lparr>local_sympos := (local_sympos ?t)((key, g) \<mapsto> fn_pos ?t key)\<rparr>)" by simp
  moreover have "?t\<lparr>local_sympos := (local_sympos ?t)((key, g) \<mapsto> fn_pos ?t key)\<rparr> =
      s\<lparr>fn_pos := (fn_pos s)(key := Suc (fn_pos s key)),
        local_sympos := (local_sympos s)((key, g) \<mapsto> Suc (fn_pos s key)),
        vm_in_vmlinux := insert (key, g) (vm_in_vmlinux s)\<rparr>"
    by (rule vm_state.equality) simp_all
  ultimately show ?thesis by (simp only:)
qed

lemma vm_local_file:
  assumes "(if (key, filename) \<notin> fns then get_in_any fns key (mod_hdrs cfg) else Some filename) = Some g"
    and "filename \<in> set (all_files cfg)"
  shows "(key, g) \<in> fns" "g \<in> set (all_files cfg)"
  using assms by (auto split: if_splits dest: get_in_any_Some mod_hdrs_all_files)

lemma vm_inv_func:
  assumes "vm_func cfg fns scope key s = Inr s'" and inv: "vm_inv cfg fns s"
  shows "vm_inv cfg fns s'"
proof -
  from assms(1) obtain filename where fname: "vm_filename s = Inr filename"
    by (auto simp: vm_func_def res_elims)
  note run = assms(1) [unfolded vm_func_def fname res_bind_simps Let_def]
  consider (dot) "contains key ''.''" | (local) "\<not> contains key ''.''" "scope = ''LOCAL''"
    | (global) "\<not> contains key ''.''" "scope \<noteq> ''LOCAL''" by blast
  then show ?thesis
  proof cases
    case dot
    with run inv show ?thesis by (auto simp: vm_inv_add_mangled split: if_splits)
  next
    case local
    show ?thesis
    proof (cases "filename \<in> set (all_files cfg)")
      case False
      with run local inv show ?thesis by (auto simp: vm_inv_bump_pos)
    next
      case True
      show ?thesis
      proof (cases "if (key, filename) \<notin> fns then get_in_any fns key (mod_hdrs cfg) else Some filename")
        case None
        with run local True inv show ?thesis by (auto simp: vm_inv_bump_pos simp del: if_split_asm)
      next
        case (Some g)
        from run local True Some
        have "s' = s\<lparr>fn_pos := (fn_pos s)(key := Suc (fn_pos s key)),
            local_sympos := (local_sympos s)((key, g) \<mapsto> Suc (fn_pos s key)),
            vm_in_vmlinux := insert (key, g) (vm_in_vmlinux s)\<rparr>"
          by simp
        with vm_inv_add_local [OF inv vm_local_file [OF Some True] local(1)] show ?thesis by simp
      qed
    qed
  next
    case global
    with run inv show ?thesis
      by (auto intro: vm_inv_add_found split: option.splits dest: get_in_any_Some)
  qed
qed

lemma vm_inv_line:
  "vm_line cfg fns line s = Inr s' \<Longrightarrow> vm_inv cfg fns s \<Longrightarrow> vm_inv cfg fns s'"
  by (auto simp: vm_line_def Let_def split: if_splits intro: vm_inv_notype vm_inv_func)

lemma vm_inv_result: "find_in_vmlinux cfg fns lines = Inr s \<Longrightarrow> vm_inv cfg fns s"
  unfolding find_in_vmlinux_def
  by (erule res_fold_invariant [where I = "vm_inv cfg fns"]) (auto intro: vm_inv_line)

subsection \<open>Symbol positions\<close>

text \<open>The name a line contributes to the count of local function symbols.\<close>

definition local_name :: "string \<Rightarrow> string option" where
  "local_name line =
     (let fields = split_ws line
      in if length fields = 8 \<and> fields ! 3 = ''FUNC'' \<and> fields ! 4 = ''LOCAL'' \<and> \<not> contains (fields ! 7) ''.''
         then Some (fields ! 7) else None)"

definition local_names :: "string list \<Rightarrow> string list" where
  "local_names lines = List.map_filter local_name lines"

lemma local_names_snoc:
  "local_names (ls @ [l]) = local_names ls @ (case local_name l of None \<Rightarrow> [] | Some f \<Rightarrow> [f])"
  by (simp add: local_names_def map_filter_def split: option.splits)

text \<open>
  Positions against the lines read so far: \<open>fn_pos\<close> counts the local symbols of a name;
  every recorded position is the count at some line of that name, and two files never share
  the position of a name.
\<close>

definition pos_inv :: "string list \<Rightarrow> vm_state \<Rightarrow> bool" where
  "pos_inv ls s \<longleftrightarrow>
     (\<forall>f. fn_pos s f = count_list (local_names ls) f) \<and>
     (\<forall>f g n. local_sympos s (f, g) = Some n \<longrightarrow>
        n \<le> count_list (local_names ls) f \<and>
        (\<exists>us l vs. ls = us @ l # vs \<and> local_name l = Some f \<and> n = count_list (local_names (us @ [l])) f)) \<and>
     (\<forall>f g h n. local_sympos s (f, g) = Some n \<longrightarrow> local_sympos s (f, h) = Some n \<longrightarrow> g = h)"

lemma vm_line_pos:
  assumes "vm_line cfg fns l s = Inr s'"
  shows "(local_name l = None \<and> fn_pos s' = fn_pos s \<and> local_sympos s' = local_sympos s) \<or>
    (\<exists>f. local_name l = Some f \<and> fn_pos s' = (fn_pos s)(f := Suc (fn_pos s f)) \<and>
      (local_sympos s' = local_sympos s \<or>
       (\<exists>g. local_sympos s' = (local_sympos s)((f, g) \<mapsto> Suc (fn_pos s f)))))"
proof -
  define fields where "fields = split_ws l"
  consider (skip) "local_name l = None" | (loc) "length fields = 8" "fields ! 3 = ''FUNC''"
      "fields ! 4 = ''LOCAL''" "\<not> contains (fields ! 7) ''.''" "local_name l = Some (fields ! 7)"
    by (cases "length fields = 8 \<and> fields ! 3 = ''FUNC'' \<and> fields ! 4 = ''LOCAL'' \<and> \<not> contains (fields ! 7) ''.''")
      (auto simp: local_name_def fields_def Let_def)
  then show ?thesis
  proof cases
    case skip
    with assms show ?thesis
      by (auto simp: vm_line_def vm_set_file_def vm_notype_def vm_func_def res_elims Let_def local_name_def
          split: if_splits option.splits)
  next
    case loc
    with assms have "vm_func cfg fns ''LOCAL'' (fields ! 7) s = Inr s'"
      by (simp add: vm_line_def fields_def Let_def)
    with loc show ?thesis
      by (auto simp: vm_func_def res_elims Let_def split: if_splits option.splits)
  qed
qed

lemma pos_inv_keep:
  assumes "pos_inv ls s" "local_name l = None" "fn_pos s' = fn_pos s" "local_sympos s' = local_sympos s"
  shows "pos_inv (ls @ [l]) s'"
proof -
  have "local_names (ls @ [l]) = local_names ls" using assms(2) by (simp add: local_names_snoc)
  moreover have "\<exists>us k vs. ls @ [l] = us @ k # vs \<and> P us k" if "\<exists>us k vs. ls = us @ k # vs \<and> P us k" for P
    using that by (metis append_Cons append_assoc)
  ultimately show ?thesis using assms unfolding pos_inv_def by simp
qed

lemma pos_inv_bump:
  assumes inv: "pos_inv ls s" and l: "local_name l = Some f"
    and s': "fn_pos s' = (fn_pos s)(f := Suc (fn_pos s f))" "local_sympos s' = local_sympos s"
  shows "pos_inv (ls @ [l]) s'"
proof -
  have names: "local_names (ls @ [l]) = local_names ls @ [f]" using l by (simp add: local_names_snoc)
  have ext: "\<exists>us k vs. ls @ [l] = us @ k # vs \<and> P us k" if "\<exists>us k vs. ls = us @ k # vs \<and> P us k" for P
    using that by (metis append_Cons append_assoc)
  have "local_sympos s (g, h) = Some n \<Longrightarrow> n \<le> count_list (local_names ls @ [f]) g" for g h n
    using inv unfolding pos_inv_def by fastforce
  with inv s' show ?thesis unfolding pos_inv_def names
    by (intro conjI allI impI ext) auto
qed

lemma pos_inv_record:
  assumes inv: "pos_inv ls s" and l: "local_name l = Some f"
    and s': "fn_pos s' = (fn_pos s)(f := Suc (fn_pos s f))"
      "local_sympos s' = (local_sympos s)((f, g) \<mapsto> Suc (fn_pos s f))"
  shows "pos_inv (ls @ [l]) s'"
proof -
  define t where "t = s'\<lparr>local_sympos := local_sympos s\<rparr>"
  have t: "pos_inv (ls @ [l]) t" by (rule pos_inv_bump [OF inv l]) (simp_all add: t_def s')
  have n: "Suc (fn_pos s f) = count_list (local_names (ls @ [l])) f"
    using inv l by (simp add: pos_inv_def local_names_snoc)
  have old: "local_sympos s (f, h) = Some n \<Longrightarrow> n < Suc (fn_pos s f)" for h n
    using inv by (auto simp: pos_inv_def le_imp_less_Suc)
  have "fn_pos s' h = count_list (local_names (ls @ [l])) h" for h
    using t by (simp add: pos_inv_def t_def)
  moreover have "m \<le> count_list (local_names (ls @ [l])) h \<and>
     (\<exists>us k vs. ls @ [l] = us @ k # vs \<and> local_name k = Some h \<and> m = count_list (local_names (us @ [k])) h)"
    if "local_sympos s' (h, i) = Some m" for h i m
  proof (cases "(h, i) = (f, g)")
    case True
    with that n l s' show ?thesis by auto
  next
    case False
    with that s' have "local_sympos t (h, i) = Some m" by (auto simp: t_def split: if_splits)
    with t show ?thesis unfolding pos_inv_def by blast
  qed
  moreover have "i = j" if "local_sympos s' (h, i) = Some m" "local_sympos s' (h, j) = Some m" for h i j m
  proof -
    have "local_sympos s (h, i) = Some m \<Longrightarrow> local_sympos s (h, j) = Some m \<Longrightarrow> i = j"
      using inv unfolding pos_inv_def by blast
    with that s' old show ?thesis by (fastforce split: if_splits)
  qed
  ultimately show ?thesis unfolding pos_inv_def by blast
qed

lemma pos_inv_line:
  assumes "vm_line cfg fns l s = Inr s'" "pos_inv ls s"
  shows "pos_inv (ls @ [l]) s'"
  using vm_line_pos [OF assms(1)] pos_inv_keep [OF assms(2)] pos_inv_bump [OF assms(2)]
    pos_inv_record [OF assms(2)] by blast

lemma pos_inv_result:
  assumes "find_in_vmlinux cfg fns lines = Inr s"
  shows "pos_inv (drop 3 lines) s"
proof -
  have "pos_inv [] vm_init" by (simp add: pos_inv_def vm_init_def local_names_def map_filter_def)
  from res_fold_trace_Inr [OF assms [unfolded find_in_vmlinux_def], of pos_inv, OF this pos_inv_line]
  show ?thesis by simp
qed

subsection \<open>The file a symbol is read under\<close>

text \<open>
  The symbols of an object file follow its \<open>FILE\<close> symbol, so the file a line belongs to is
  the one the last \<open>FILE\<close> symbol above it names, by its full path where the configuration
  knows one.
\<close>

definition file_key :: "string \<Rightarrow> string option" where
  "file_key line =
     (let fields = split_ws line
      in if length fields = 8 \<and> fields ! 3 = ''FILE'' then Some (fields ! 7) else None)"

definition resolve_file :: "config \<Rightarrow> string \<Rightarrow> string" where
  "resolve_file cfg key = (case fullname cfg key of None \<Rightarrow> key | Some f \<Rightarrow> f)"

definition current_file :: "config \<Rightarrow> string list \<Rightarrow> string option" where
  "current_file cfg us =
     (let keys = List.map_filter file_key us
      in if keys = [] then None else Some (resolve_file cfg (last keys)))"

text \<open>
  The function a line is the local symbol of, after the lines \<open>us\<close>: the function of that
  name in the current file, or else the one of a header file of the module, where the
  current file is one of the boundary.
\<close>

definition local_symbol :: "config \<Rightarrow> sig set \<Rightarrow> string list \<Rightarrow> string \<Rightarrow> sig option" where
  "local_symbol cfg fns us line =
     (case (local_name line, current_file cfg us) of
        (Some f, Some file) \<Rightarrow>
          if file \<notin> set (all_files cfg) then None
          else if (f, file) \<in> fns then Some (f, file)
          else map_option (Pair f) (get_in_any fns f (mod_hdrs cfg))
      | _ \<Rightarrow> None)"

lemma current_file_snoc:
  "current_file cfg (us @ [l]) =
     (case file_key l of None \<Rightarrow> current_file cfg us | Some key \<Rightarrow> Some (resolve_file cfg key))"
  by (simp add: current_file_def Let_def map_filter_def split: option.splits)

lemma local_symbol_name: "local_symbol cfg fns us l = Some (f, g) \<Longrightarrow> local_name l = Some f"
  by (auto simp: local_symbol_def split: option.splits if_splits)

lemma file_key_local_name: "file_key l = Some key \<Longrightarrow> local_name l = None"
  by (auto simp: file_key_def local_name_def Let_def split: if_splits)

lemma vm_line_symbol:
  assumes "vm_line cfg fns l s = Inr s'" "vm_file s = current_file cfg us"
  shows "vm_file s' = current_file cfg (us @ [l]) \<and>
    local_sympos s' = (case local_symbol cfg fns us l of
        None \<Rightarrow> local_sympos s
      | Some p \<Rightarrow> (local_sympos s)(p \<mapsto> Suc (fn_pos s (fst p))))"
proof -
  define fields where "fields = split_ws l"
  consider (newfile) "length fields = 8" "fields ! 3 = ''FILE''" "file_key l = Some (fields ! 7)"
    | (loc) "length fields = 8" "fields ! 3 = ''FUNC''" "fields ! 4 = ''LOCAL''"
        "\<not> contains (fields ! 7) ''.''" "local_name l = Some (fields ! 7)" "file_key l = None"
    | (other) "local_name l = None" "file_key l = None" "\<not> (length fields = 8 \<and> fields ! 3 = ''FILE'')"
  proof -
    note keys = file_key_def [of l] local_name_def [of l]
    show thesis if newfile: "length fields = 8 \<Longrightarrow> fields ! 3 = ''FILE'' \<Longrightarrow> file_key l = Some (fields ! 7) \<Longrightarrow> thesis"
      and loc: "length fields = 8 \<Longrightarrow> fields ! 3 = ''FUNC'' \<Longrightarrow> fields ! 4 = ''LOCAL'' \<Longrightarrow>
        \<not> contains (fields ! 7) ''.'' \<Longrightarrow> local_name l = Some (fields ! 7) \<Longrightarrow> file_key l = None \<Longrightarrow> thesis"
      and other: "local_name l = None \<Longrightarrow> file_key l = None \<Longrightarrow> \<not> (length fields = 8 \<and> fields ! 3 = ''FILE'') \<Longrightarrow> thesis"
    proof (cases "length fields = 8 \<and> fields ! 3 = ''FILE''")
      case True
      then show thesis using newfile keys by (simp add: fields_def Let_def)
    next
      case False
      then show thesis using loc other keys
        by (cases "length fields = 8 \<and> fields ! 3 = ''FUNC'' \<and> fields ! 4 = ''LOCAL'' \<and> \<not> contains (fields ! 7) ''.''")
          (auto simp: fields_def Let_def)
    qed
  qed
  then show ?thesis
  proof cases
    case newfile
    then have "local_name l = None" by (auto intro: file_key_local_name)
    moreover from newfile assms(1) have "s' = vm_set_file cfg (fields ! 7) s"
      by (simp add: vm_line_def fields_def Let_def)
    ultimately show ?thesis using newfile(3)
      by (simp add: current_file_snoc vm_set_file_def resolve_file_def local_symbol_def)
  next
    case other
    with assms(1) have "vm_file s' = vm_file s" "local_sympos s' = local_sympos s"
      by (auto simp: vm_line_def vm_notype_def vm_func_def res_elims Let_def local_name_def fields_def
          split: if_splits option.splits)
    with other(1,2) assms(2) show ?thesis by (simp add: current_file_snoc local_symbol_def)
  next
    case loc
    with assms(1) have "vm_func cfg fns ''LOCAL'' (fields ! 7) s = Inr s'"
      by (simp add: vm_line_def fields_def Let_def)
    then obtain g where g: "vm_file s = Some g" "vm_func cfg fns ''LOCAL'' (fields ! 7) s = Inr s'"
      by (cases "vm_file s") (auto simp: vm_func_def vm_filename_def)
    note run = g(2) [unfolded vm_func_def vm_filename_def g(1)]
    consider "g \<notin> set (all_files cfg)" | "g \<in> set (all_files cfg)" "(fields ! 7, g) \<in> fns"
      | "g \<in> set (all_files cfg)" "(fields ! 7, g) \<notin> fns" by blast
    then show ?thesis
    proof cases
      case 3
      with run loc g(1) assms(2) show ?thesis
        by (cases "get_in_any fns (fields ! 7) (mod_hdrs cfg)")
          (auto simp: current_file_snoc local_symbol_def Let_def)
    qed (use run loc g(1) assms(2) in \<open>auto simp: current_file_snoc local_symbol_def Let_def\<close>)
  qed
qed

text \<open>
  Line \<open>i\<close> of the table is the last one that is the local symbol of the function, and the
  number of lines with a local symbol of that name, down to line \<open>i\<close>.
\<close>

definition last_symbol :: "config \<Rightarrow> sig set \<Rightarrow> string list \<Rightarrow> sig \<Rightarrow> nat \<Rightarrow> bool" where
  "last_symbol cfg fns ls p i \<longleftrightarrow> i < length ls \<and> local_symbol cfg fns (take i ls) (ls ! i) = Some p \<and>
     (\<forall>j. i < j \<longrightarrow> j < length ls \<longrightarrow> local_symbol cfg fns (take j ls) (ls ! j) \<noteq> Some p)"

definition name_rank :: "string list \<Rightarrow> string \<Rightarrow> nat \<Rightarrow> nat" where
  "name_rank ls f i = count_list (local_names (take (Suc i) ls)) f"

lemma last_symbol_snoc:
  "last_symbol cfg fns (ls @ [l]) p i \<longleftrightarrow>
     (if local_symbol cfg fns ls l = Some p then i = length ls else last_symbol cfg fns ls p i)"
  by (auto simp: last_symbol_def nth_append less_Suc_eq)

lemma name_rank_snoc: "i < length ls \<Longrightarrow> name_rank (ls @ [l]) f i = name_rank ls f i"
  by (simp add: name_rank_def)

definition sympos_inv :: "config \<Rightarrow> sig set \<Rightarrow> string list \<Rightarrow> vm_state \<Rightarrow> bool" where
  "sympos_inv cfg fns ls s \<longleftrightarrow> pos_inv ls s \<and> vm_file s = current_file cfg ls \<and>
     (\<forall>p n. local_sympos s p = Some n \<longleftrightarrow> (\<exists>i. last_symbol cfg fns ls p i \<and> n = name_rank ls (fst p) i))"

lemma sympos_inv_line:
  assumes "vm_line cfg fns l s = Inr s'" "sympos_inv cfg fns ls s"
  shows "sympos_inv cfg fns (ls @ [l]) s'"
proof -
  have pos: "pos_inv ls s" "pos_inv (ls @ [l]) s'"
    and cur: "vm_file s = current_file cfg ls"
    and old: "\<And>p n. local_sympos s p = Some n \<longleftrightarrow> (\<exists>i. last_symbol cfg fns ls p i \<and> n = name_rank ls (fst p) i)"
    using assms(2) pos_inv_line [OF assms(1)] unfolding sympos_inv_def by blast+
  note step = vm_line_symbol [OF assms(1) cur]
  have "local_sympos s' p = Some n \<longleftrightarrow>
      (\<exists>i. last_symbol cfg fns (ls @ [l]) p i \<and> n = name_rank (ls @ [l]) (fst p) i)" for p n
  proof (cases "local_symbol cfg fns ls l = Some p")
    case True
    then have "local_name l = Some (fst p)" by (cases p) (auto dest: local_symbol_name)
    with pos(1) have "name_rank (ls @ [l]) (fst p) (length ls) = Suc (fn_pos s (fst p))"
      by (simp add: name_rank_def local_names_snoc pos_inv_def)
    with step True show ?thesis by (auto simp: last_symbol_snoc)
  next
    case False
    with step have "local_sympos s' p = local_sympos s p" by (auto split: option.splits)
    moreover have "last_symbol cfg fns ls p i \<Longrightarrow> name_rank (ls @ [l]) (fst p) i = name_rank ls (fst p) i" for i
      by (simp add: last_symbol_def name_rank_snoc)
    ultimately show ?thesis using False by (auto simp: old last_symbol_snoc)
  qed
  with pos(2) step show ?thesis unfolding sympos_inv_def by blast
qed

lemma sympos_inv_result:
  assumes "find_in_vmlinux cfg fns lines = Inr s"
  shows "sympos_inv cfg fns (drop 3 lines) s"
proof -
  have "sympos_inv cfg fns [] vm_init"
    by (simp add: sympos_inv_def pos_inv_def vm_init_def local_names_def map_filter_def current_file_def
        last_symbol_def)
  from res_fold_trace_Inr [OF assms [unfolded find_in_vmlinux_def], of "sympos_inv cfg fns", OF this sympos_inv_line]
  show ?thesis by simp
qed

end
