(* ===== verification/Inflect.thy ===== *)
theory Inflect
  imports Metadata
begin

text \<open>
  \<open>inflect\<close> of \<open>boundary/analyze.py\<close>: the loop that turns insiders called by outsiders
  into outsiders until none is left. The locale \<open>pruning\<close> is the contract of such a
  loop: what it deletes lies in the current set and shrinking the set only makes more
  deletable. Its lemmas say that the loop computes the greatest stable subset.
\<close>

subsection \<open>The contract of a pruning loop\<close>

locale pruning =
  fixes doomed :: "'a set \<Rightarrow> 'a set"
    and loop :: "'a set \<Rightarrow> 'a set"
    and candidates :: "'a set"
  assumes finite_candidates: "finite candidates"
    and doomed_subset: "doomed S \<subseteq> S"
    and doomed_candidates: "doomed S \<subseteq> candidates"
    and doomed_antitone: "S \<subseteq> T \<Longrightarrow> x \<in> doomed T \<Longrightarrow> x \<in> S \<Longrightarrow> x \<in> doomed S"
    and loop_unfold: "loop S = (if doomed S = {} then S else loop (S - doomed S))"
begin

lemma card_decreases:
  assumes "doomed S \<noteq> {}"
  shows "card ((S - doomed S) \<inter> candidates) < card (S \<inter> candidates)"
proof (rule psubset_card_mono)
  show "finite (S \<inter> candidates)" using finite_candidates by simp
  from assms obtain x where "x \<in> doomed S" by blast
  then show "(S - doomed S) \<inter> candidates \<subset> S \<inter> candidates"
    using doomed_subset doomed_candidates by blast
qed

lemma loop_induct:
  assumes "\<And>S. doomed S = {} \<Longrightarrow> P S S"
    and "\<And>S. doomed S \<noteq> {} \<Longrightarrow> P (S - doomed S) (loop (S - doomed S)) \<Longrightarrow> P S (loop (S - doomed S))"
  shows "P S (loop S)"
proof (induction "card (S \<inter> candidates)" arbitrary: S rule: less_induct)
  case less
  show ?case
  proof (cases "doomed S = {}")
    case True
    with assms(1) loop_unfold [of S] show ?thesis by simp
  next
    case False
    from less [OF card_decreases [OF False]] assms(2) [OF False] loop_unfold [of S] False
    show ?thesis by simp
  qed
qed

lemma loop_subset: "loop S \<subseteq> S"
  by (rule loop_induct [of "\<lambda>S T. T \<subseteq> S"]) auto

lemma loop_stable: "doomed (loop S) = {}"
  by (rule loop_induct [of "\<lambda>S T. doomed T = {}"]) auto

lemma loop_keeps_stable:
  assumes "doomed J = {}"
  shows "J \<subseteq> S \<Longrightarrow> J \<subseteq> loop S"
proof (rule loop_induct [of "\<lambda>S T. J \<subseteq> S \<longrightarrow> J \<subseteq> T", THEN mp])
  fix S
  assume IH: "J \<subseteq> S - doomed S \<longrightarrow> J \<subseteq> loop (S - doomed S)"
  have "J \<inter> doomed S = {}" if "J \<subseteq> S"
    using doomed_antitone [OF that] assms by blast
  with IH show "J \<subseteq> S \<longrightarrow> J \<subseteq> loop (S - doomed S)" by blast
qed auto

lemma loop_greatest: "loop S = \<Union> {J. J \<subseteq> S \<and> doomed J = {}}"
proof
  show "loop S \<subseteq> \<Union> {J. J \<subseteq> S \<and> doomed J = {}}"
    using loop_subset [of S] loop_stable [of S] by (intro Union_upper) simp
  show "\<Union> {J. J \<subseteq> S \<and> doomed J = {}} \<subseteq> loop S"
    by (rule Union_least) (simp add: loop_keeps_stable)
qed

lemma loop_idem: "loop (loop S) = loop S"
  by (subst loop_unfold) (simp add: loop_stable)

lemma loop_mono: "S \<subseteq> T \<Longrightarrow> loop S \<subseteq> loop T"
  by (rule loop_keeps_stable [OF loop_stable]) (rule subset_trans [OF loop_subset])

end

subsection \<open>The loop of the program\<close>

text \<open>
  A resolved edge is the pair of caller and callee. \<open>inflect_one\<close> returns the callee that
  stops being an insider, if there is one; each round applies it to every edge against the
  insiders at the start of the round.
\<close>

type_synonym call = "sig \<times> sig"

definition inflect_one :: "sig set \<Rightarrow> sig set \<Rightarrow> call \<Rightarrow> sig option" where
  "inflect_one keep insiders = (\<lambda>(from_sym, to_sym).
     if to_sym \<in> insiders then
       (if from_sym \<notin> insiders \<union> keep then Some to_sym else None)
     else None)"

definition delete_insider :: "call list \<Rightarrow> sig set \<Rightarrow> sig set \<Rightarrow> sig list" where
  "delete_insider edges keep insiders = List.map_filter (inflect_one keep insiders) edges"

lemma set_delete_insider:
  "set (delete_insider edges keep S) = {t. \<exists>f. (f, t) \<in> set edges \<and> t \<in> S \<and> f \<notin> S \<and> f \<notin> keep}"
  by (force simp: delete_insider_def inflect_one_def map_filter_def split: if_splits)

lemma delete_insider_Nil: "delete_insider edges keep S = [] \<longleftrightarrow> set (delete_insider edges keep S) = {}"
  by simp

function inflect_loop :: "call list \<Rightarrow> sig set \<Rightarrow> sig set \<Rightarrow> sig set" where
  "inflect_loop edges keep insiders =
     (let dl = delete_insider edges keep insiders
      in if dl = [] then insiders else inflect_loop edges keep (insiders - set dl))"
  by pat_completeness auto
termination
proof (relation "measure (\<lambda>(edges, keep, S). card (S \<inter> set (map snd edges)))")
  fix edges :: "call list" and keep S dl
  assume dl: "dl = delete_insider edges keep S" and "dl \<noteq> []"
  then obtain t where "t \<in> set dl" by (meson hd_in_set)
  moreover from this have "t \<in> S" "t \<in> set (map snd edges)"
    unfolding dl set_delete_insider by force+
  ultimately have "(S - set dl) \<inter> set (map snd edges) \<subset> S \<inter> set (map snd edges)"
    by blast
  then have "card ((S - set dl) \<inter> set (map snd edges)) < card (S \<inter> set (map snd edges))"
    by (rule psubset_card_mono [rotated]) simp
  then show "((edges, keep, S - set dl), edges, keep, S)
      \<in> measure (\<lambda>(edges, keep, S). card (S \<inter> set (map snd edges)))" by simp
qed simp

declare inflect_loop.simps [simp del]

definition inflect :: "sig set \<Rightarrow> call list \<Rightarrow> sig set \<Rightarrow> sig set" where
  "inflect initial_insiders edges keep = inflect_loop edges keep initial_insiders"

interpretation inflect: pruning
  "\<lambda>S. set (delete_insider edges keep S)" "inflect_loop edges keep" "set (map snd edges)"
  for edges :: "call list" and keep :: "sig set"
proof unfold_locales
  show "inflect_loop edges keep S =
      (if set (delete_insider edges keep S) = {} then S
       else inflect_loop edges keep (S - set (delete_insider edges keep S)))" for S
    by (subst inflect_loop.simps) (simp add: Let_def)
next
  show "set (delete_insider edges keep S) \<subseteq> set (map snd edges)" for S
    by (force simp: set_delete_insider)
qed (auto simp: set_delete_insider)

subsection \<open>Insiders are the functions no outside call chain reaches\<close>

inductive exposed :: "call list \<Rightarrow> sig set \<Rightarrow> sig set \<Rightarrow> sig \<Rightarrow> bool"
  for edges :: "call list" and keep :: "sig set" and initial :: "sig set"
where
  from_outside: "(f, t) \<in> set edges \<Longrightarrow> t \<in> initial \<Longrightarrow> f \<notin> initial \<Longrightarrow> f \<notin> keep \<Longrightarrow> exposed edges keep initial t"
| from_exposed: "exposed edges keep initial f \<Longrightarrow> f \<notin> keep \<Longrightarrow> (f, t) \<in> set edges \<Longrightarrow> t \<in> initial
    \<Longrightarrow> exposed edges keep initial t"

lemma loop_caller:
  assumes "(f, t) \<in> set edges" "t \<in> inflect_loop edges keep initial" "f \<notin> keep"
  shows "f \<in> inflect_loop edges keep initial"
proof (rule ccontr)
  assume "f \<notin> inflect_loop edges keep initial"
  with assms have "t \<in> set (delete_insider edges keep (inflect_loop edges keep initial))"
    unfolding set_delete_insider by blast
  then show False by (simp only: inflect.loop_stable empty_iff)
qed

lemma exposed_not_kept: "exposed edges keep initial t \<Longrightarrow> t \<notin> inflect_loop edges keep initial"
proof (induction rule: exposed.induct)
  case (from_outside f t)
  with inflect.loop_subset [of edges keep initial] loop_caller show ?case by blast
next
  case (from_exposed f t)
  with loop_caller show ?case by blast
qed

lemma unexposed_kept: "{t \<in> initial. \<not> exposed edges keep initial t} \<subseteq> inflect_loop edges keep initial"
proof (rule inflect.loop_keeps_stable)
  show "set (delete_insider edges keep {t \<in> initial. \<not> exposed edges keep initial t}) = {}"
    by (auto simp: set_delete_insider intro: exposed.intros)
qed auto

lemma inflect_eq_unexposed:
  "inflect initial edges keep = {t \<in> initial. \<not> exposed edges keep initial t}"
  using unexposed_kept exposed_not_kept inflect.loop_subset by (fastforce simp: inflect_def)

lemma inflect_subset: "inflect initial edges keep \<subseteq> initial"
  by (simp add: inflect_def inflect.loop_subset)

lemma inflect_callers:
  assumes "(f, t) \<in> set edges" "t \<in> inflect initial edges keep"
  shows "f \<in> inflect initial edges keep \<or> f \<in> keep"
  using loop_caller [OF assms(1)] assms(2) unfolding inflect_def by blast

subsection \<open>Properties\<close>

text \<open>C12: \<open>inflect\<close> keeps exactly the initial insiders that no chain of calls from outside
  reaches without passing through the border, an init function or a sidecar.\<close>

theorem inflect_reachability: "inflect initial edges keep = {t \<in> initial. \<not> exposed edges keep initial t}"
  by (rule inflect_eq_unexposed)

end
