(* ===== verification/Sidecar.thy ===== *)
theory Sidecar
  imports Metadata
begin

text \<open>
  \<open>sidecar_inflect\<close> and its depth-first search \<open>__sidecar_dfs\<close> of
  \<open>boundary/analyze.py\<close>. The set \<open>leftover\<close> that the recursion mutates is passed along.
  The first argument is the depth of recursion the interpreter still allows; at 0 Python
  raises \<open>RecursionError\<close>.
\<close>

fun sidecar_dfs :: "nat \<Rightarrow> edge list \<Rightarrow> sig set \<Rightarrow> sig \<Rightarrow> sig set \<Rightarrow> sig set res" where
  "sidecar_dfs 0 edges in_vmlinux start_sym leftover = Inl RecursionError"
| "sidecar_dfs (Suc depth) edges in_vmlinux start_sym leftover =
     (if start_sym \<in> leftover then Inr leftover
      else res_fold (\<lambda>e leftover.
             case e_to e of
               None \<Rightarrow> Inr leftover
             | Some to_sym \<Rightarrow>
                 if e_from e = start_sym \<and> snd to_sym = snd start_sym \<and> to_sym \<notin> in_vmlinux
                 then sidecar_dfs depth edges in_vmlinux to_sym leftover
                 else Inr leftover)
           edges (insert start_sym leftover))"

text \<open>The dictionary \<open>metas_by_name\<close>: a later file of the same name overwrites an earlier one.\<close>

definition metas_by_name :: "metas \<Rightarrow> string \<Rightarrow> edge meta res" where
  "metas_by_name ms name =
     (case map_of (rev ms) name of None \<Rightarrow> Inl (KeyError name) | Some m \<Rightarrow> Inr m)"

definition boundary_name :: "sig \<Rightarrow> string" where
  "boundary_name sg = snd sg @ ''.boundary''"

definition sidecar_inflect :: "nat \<Rightarrow> metas \<Rightarrow> sig list \<Rightarrow> sig set \<Rightarrow> sig set res" where
  "sidecar_inflect depth ms sdcr in_vmlinux =
     res_bind (py_assert (set sdcr - in_vmlinux = {}) ''sidecar functions should not be optimzied by GCC'') (\<lambda>_.
       res_fold (\<lambda>sg leftover.
           res_bind (metas_by_name ms (boundary_name sg)) (\<lambda>meta.
             sidecar_dfs depth (m_edge meta) in_vmlinux sg leftover))
         sdcr {})"

subsection \<open>The search visits what is reachable\<close>

definition follows :: "edge list \<Rightarrow> sig set \<Rightarrow> (sig \<times> sig) set" where
  "follows edges iv = {(e_from e, t) | e t. e \<in> set edges \<and> e_to e = Some t \<and> snd t = snd (e_from e) \<and> t \<notin> iv}"

lemma followsI:
  "e \<in> set edges \<Longrightarrow> e_to e = Some t \<Longrightarrow> snd t = snd (e_from e) \<Longrightarrow> t \<notin> iv
    \<Longrightarrow> (e_from e, t) \<in> follows edges iv"
  unfolding follows_def by blast

lemma finite_follows [simp]: "finite (follows edges iv)"
proof -
  have "follows edges iv \<subseteq> (\<lambda>e. (e_from e, the (e_to e))) ` set edges"
    by (force simp: follows_def)
  then show ?thesis by (rule finite_subset) simp
qed

lemma follows_same_file: "(s, t) \<in> (follows edges iv)\<^sup>* \<Longrightarrow> snd t = snd s"
  by (induction rule: rtrancl_induct) (auto simp: follows_def)

text \<open>What one call adds: the start, only reachable functions, and all callees of what it adds.\<close>

definition dfs_post :: "(sig \<times> sig) set \<Rightarrow> sig \<Rightarrow> sig set \<Rightarrow> sig set \<Rightarrow> bool" where
  "dfs_post R s left left' \<longleftrightarrow>
     insert s left \<subseteq> left' \<and> left' \<subseteq> left \<union> R\<^sup>* `` {s} \<and> R `` (left' - left) \<subseteq> left'"

definition dfs_loop_inv :: "(sig \<times> sig) set \<Rightarrow> sig \<Rightarrow> sig set \<Rightarrow> (sig \<Rightarrow> bool) \<Rightarrow> sig set \<Rightarrow> bool" where
  "dfs_loop_inv R s left seen cur \<longleftrightarrow>
     insert s left \<subseteq> cur \<and> cur \<subseteq> left \<union> R\<^sup>* `` {s} \<and>
     R `` (cur - insert s left) \<subseteq> cur \<and> (\<forall>t. seen t \<longrightarrow> t \<in> cur)"

lemma dfs_loop_step:
  assumes inv: "dfs_loop_inv R s left seen cur" and R: "(s, t) \<in> R" and post: "dfs_post R t cur cur'"
  shows "dfs_loop_inv R s left (\<lambda>x. seen x \<or> x = t) cur'"
proof -
  from post have p: "t \<in> cur'" "cur \<subseteq> cur'" "cur' \<subseteq> cur \<union> R\<^sup>* `` {t}" "R `` (cur' - cur) \<subseteq> cur'"
    by (auto simp: dfs_post_def)
  from inv have i: "insert s left \<subseteq> cur" "cur \<subseteq> left \<union> R\<^sup>* `` {s}" "R `` (cur - insert s left) \<subseteq> cur"
    "\<And>x. seen x \<Longrightarrow> x \<in> cur"
    by (auto simp: dfs_loop_inv_def)
  have "R\<^sup>* `` {t} \<subseteq> R\<^sup>* `` {s}" using R by (auto intro: converse_rtrancl_into_rtrancl)
  with p(3) i(2) have "cur' \<subseteq> left \<union> R\<^sup>* `` {s}" by blast
  moreover have "cur' - insert s left \<subseteq> (cur' - cur) \<union> (cur - insert s left)" by blast
  then have "R `` (cur' - insert s left) \<subseteq> R `` (cur' - cur) \<union> R `` (cur - insert s left)" by blast
  with p(2,4) i(3) have "R `` (cur' - insert s left) \<subseteq> cur'" by (meson Un_least subset_trans)
  ultimately show ?thesis using p(1,2) i(1,4) by (auto simp: dfs_loop_inv_def)
qed

definition seen_in :: "edge list \<Rightarrow> sig set \<Rightarrow> sig \<Rightarrow> sig \<Rightarrow> bool" where
  "seen_in es iv s t \<longleftrightarrow> (s, t) \<in> follows es iv"

lemma sidecar_dfs_post:
  "sidecar_dfs n edges iv s left = Inr left' \<Longrightarrow> dfs_post (follows edges iv) s left left'
     \<or> (s \<in> left \<and> left' = left)"
proof (induction n arbitrary: s left left')
  case 0
  then show ?case by simp
next
  case (Suc n)
  let ?R = "follows edges iv"
  let ?body = "\<lambda>(e :: edge) left. case e_to e of None \<Rightarrow> Inr left | Some t \<Rightarrow>
      if e_from e = s \<and> snd t = snd s \<and> t \<notin> iv then sidecar_dfs n edges iv t left else Inr left"
  show ?case
  proof (cases "s \<in> left")
    case True
    with Suc.prems show ?thesis by simp
  next
    case False
    with Suc.prems have run: "res_fold ?body edges (insert s left) = Inr left'" by simp
    define I where "I = (\<lambda>(es :: edge list) cur. set es \<subseteq> set edges \<longrightarrow> dfs_loop_inv ?R s left (seen_in es iv s) cur)"
    have "I ([] @ edges) left'"
    proof (rule res_fold_trace_Inr [OF run])
      show "I [] (insert s left)"
        by (auto simp: I_def dfs_loop_inv_def seen_in_def follows_def)
    next
      fix es :: "edge list" and e cur cur'
      assume I: "I es cur" and step: "?body e cur = Inr cur'"
      show "I (es @ [e]) cur'"
        unfolding I_def
      proof
        assume sub: "set (es @ [e]) \<subseteq> set edges"
        with I have inv: "dfs_loop_inv ?R s left (seen_in es iv s) cur" by (simp add: I_def)
        show "dfs_loop_inv ?R s left (seen_in (es @ [e]) iv s) cur'"
        proof (cases "\<exists>t. e_to e = Some t \<and> e_from e = s \<and> snd t = snd s \<and> t \<notin> iv")
          case True
          then obtain t where t: "e_to e = Some t" "e_from e = s" "snd t = snd s" "t \<notin> iv" by blast
          with step have call: "sidecar_dfs n edges iv t cur = Inr cur'" by simp
          from t sub followsI [of e edges t iv] have R: "(s, t) \<in> ?R" by simp
          have seen: "seen_in (es @ [e]) iv s = (\<lambda>x. seen_in es iv s x \<or> x = t)"
            using t by (auto simp: seen_in_def follows_def fun_eq_iff)
          from Suc.IH [OF call] show ?thesis
          proof
            assume "dfs_post ?R t cur cur'"
            from dfs_loop_step [OF inv R this] show ?thesis by (simp add: seen)
          next
            assume "t \<in> cur \<and> cur' = cur"
            with inv show ?thesis by (auto simp: seen dfs_loop_inv_def)
          qed
        next
          case False
          with step have "cur' = cur" by (auto split: option.splits if_splits)
          moreover have "seen_in (es @ [e]) iv s = seen_in es iv s"
            using False by (auto simp: seen_in_def follows_def fun_eq_iff)
          ultimately show ?thesis using inv by simp
        qed
      qed
    qed
    then have inv: "dfs_loop_inv ?R s left (seen_in edges iv s) left'" by (simp add: I_def)
    then have "?R `` (left' - left) \<subseteq> left'"
      unfolding dfs_loop_inv_def seen_in_def by blast
    with inv show ?thesis by (simp add: dfs_post_def dfs_loop_inv_def)
  qed
qed

lemma sidecar_dfs_grows: "sidecar_dfs n edges iv s left = Inr left' \<Longrightarrow> insert s left \<subseteq> left'"
  using sidecar_dfs_post by (fastforce simp: dfs_post_def)

text \<open>A recursion depth above the number of functions still to visit is enough.\<close>

lemma sidecar_dfs_terminates:
  assumes "finite F" "Range (follows edges iv) \<subseteq> F" "s \<in> F" "card (F - left) < n"
  shows "\<exists>left'. sidecar_dfs n edges iv s left = Inr left'"
  using assms(3,4)
proof (induction n arbitrary: s left)
  case 0
  then show ?case by simp
next
  case (Suc n)
  show ?case
  proof (cases "s \<in> left")
    case True
    then show ?thesis by simp
  next
    case False
    have less: "card (F - cur) < n" if "insert s left \<subseteq> cur" for cur
    proof -
      have "F - cur \<subset> F - left" using that False Suc.prems(1) by blast
      with assms(1) have "card (F - cur) < card (F - left)" by (simp add: psubset_card_mono)
      with Suc.prems(2) show ?thesis by simp
    qed
    have "\<exists>t. res_fold (\<lambda>e left. case e_to e of None \<Rightarrow> Inr left | Some t \<Rightarrow>
      if e_from e = s \<and> snd t = snd s \<and> t \<notin> iv then sidecar_dfs n edges iv t left else Inr left)
      edges (insert s left) = Inr t \<and> insert s left \<subseteq> t"
    proof (rule res_fold_total)
      fix e cur assume e: "e \<in> set edges" and cur: "insert s left \<subseteq> cur"
      show "\<exists>cur'. (case e_to e of None \<Rightarrow> Inr cur | Some t \<Rightarrow>
          if e_from e = s \<and> snd t = snd s \<and> t \<notin> iv then sidecar_dfs n edges iv t cur else Inr cur)
          = Inr cur' \<and> insert s left \<subseteq> cur'"
      proof (cases "\<exists>t. e_to e = Some t \<and> e_from e = s \<and> snd t = snd s \<and> t \<notin> iv")
        case True
        then obtain t where t: "e_to e = Some t" "e_from e = s" "snd t = snd s" "t \<notin> iv" by blast
        with e followsI [of e edges t iv] have "(s, t) \<in> follows edges iv" by simp
        then have "t \<in> Range (follows edges iv)" by blast
        with assms(2) have "t \<in> F" by blast
        from Suc.IH [OF this less [OF cur]] obtain cur' where
          call: "sidecar_dfs n edges iv t cur = Inr cur'" by blast
        with t sidecar_dfs_grows [OF call] cur show ?thesis by auto
      next
        case False
        with cur show ?thesis by (auto split: option.splits)
      qed
    qed simp
    with False show ?thesis by auto
  qed
qed

subsection \<open>All sidecars together\<close>

text \<open>
  The relation the whole computation follows: an optimised function called from the same
  file, by the metadata of that file.
\<close>

definition sidecar_rel :: "metas \<Rightarrow> sig set \<Rightarrow> (sig \<times> sig) set" where
  "sidecar_rel ms iv =
     {(s, t). \<exists>m. metas_by_name ms (boundary_name s) = Inr m \<and> (s, t) \<in> follows (m_edge m) iv}"

lemma boundary_name_cong: "snd s = snd t \<Longrightarrow> boundary_name s = boundary_name t"
  by (simp add: boundary_name_def)

lemma sidecar_rel_local:
  assumes m: "metas_by_name ms (boundary_name s) = Inr m"
  shows "(follows (m_edge m) iv)\<^sup>* `` {s} = (sidecar_rel ms iv)\<^sup>* `` {s}"
proof (intro equalityI subsetI)
  fix t assume "t \<in> (follows (m_edge m) iv)\<^sup>* `` {s}"
  then have "(s, t) \<in> (follows (m_edge m) iv)\<^sup>*" by simp
  then have "(s, t) \<in> (sidecar_rel ms iv)\<^sup>*"
  proof (induction rule: rtrancl_induct)
    case (step y z)
    from follows_same_file [OF step(1)] m have "metas_by_name ms (boundary_name y) = Inr m"
      by (simp add: boundary_name_def)
    with step(2,3) show ?case by (auto simp: sidecar_rel_def intro: rtrancl_into_rtrancl)
  qed simp
  then show "t \<in> (sidecar_rel ms iv)\<^sup>* `` {s}" by simp
next
  fix t assume "t \<in> (sidecar_rel ms iv)\<^sup>* `` {s}"
  then have "(s, t) \<in> (sidecar_rel ms iv)\<^sup>*" by simp
  then have "(s, t) \<in> (follows (m_edge m) iv)\<^sup>*"
  proof (induction rule: rtrancl_induct)
    case (step y z)
    from follows_same_file [OF step(3)] m have "metas_by_name ms (boundary_name y) = Inr m"
      by (simp add: boundary_name_def)
    with step(2,3) show ?case by (auto simp: sidecar_rel_def intro: rtrancl_into_rtrancl)
  qed simp
  then show "t \<in> (follows (m_edge m) iv)\<^sup>* `` {s}" by simp
qed

definition sidecar_inv :: "metas \<Rightarrow> sig set \<Rightarrow> sig list \<Rightarrow> sig set \<Rightarrow> bool" where
  "sidecar_inv ms iv ss left \<longleftrightarrow> left = (sidecar_rel ms iv)\<^sup>* `` set ss"

lemma Image_rtrancl_absorb: "s \<in> R\<^sup>* `` A \<Longrightarrow> R\<^sup>* `` {s} \<subseteq> R\<^sup>* `` A"
  by (auto intro: rtrancl_trans)

lemma closed_rtrancl_Image: "R `` C \<subseteq> C \<Longrightarrow> A \<subseteq> C \<Longrightarrow> R\<^sup>* `` A \<subseteq> C"
proof
  fix t assume C: "R `` C \<subseteq> C" "A \<subseteq> C" and "t \<in> R\<^sup>* `` A"
  then obtain a where "a \<in> A" "(a, t) \<in> R\<^sup>*" by blast
  from this(2) show "t \<in> C"
    by (induction rule: rtrancl_induct) (use C \<open>a \<in> A\<close> in auto)
qed

lemma sidecar_step:
  assumes inv: "sidecar_inv ms iv ss left"
    and m: "metas_by_name ms (boundary_name s) = Inr m"
    and run: "sidecar_dfs n (m_edge m) iv s left = Inr left'"
  shows "sidecar_inv ms iv (ss @ [s]) left'"
proof -
  let ?R = "sidecar_rel ms iv" and ?F = "follows (m_edge m) iv"
  have goal: "?R\<^sup>* `` set (ss @ [s]) = left \<union> ?R\<^sup>* `` {s}" using inv by (auto simp: sidecar_inv_def)
  show ?thesis
  proof (cases "s \<in> left \<and> left' = left")
    case True
    with inv have "?R\<^sup>* `` {s} \<subseteq> left" by (simp add: sidecar_inv_def Image_rtrancl_absorb)
    with True goal show ?thesis by (auto simp: sidecar_inv_def)
  next
    case False
    with sidecar_dfs_post [OF run] have post: "insert s left \<subseteq> left'"
      "left' \<subseteq> left \<union> ?F\<^sup>* `` {s}" "?F `` (left' - left) \<subseteq> left'"
      by (auto simp: dfs_post_def)
    have "?R\<^sup>* `` {s} \<subseteq> left'"
    proof (rule closed_rtrancl_Image)
      show "?R `` left' \<subseteq> left'"
      proof
        fix t assume "t \<in> ?R `` left'"
        then obtain x where x: "x \<in> left'" "(x, t) \<in> ?R" by blast
        show "t \<in> left'"
        proof (cases "x \<in> left")
          case True
          with inv x(2) have "t \<in> left" by (auto simp: sidecar_inv_def intro: rtrancl_into_rtrancl)
          with post(1) show ?thesis by blast
        next
          case new: False
          with x(1) post(2) have "(s, x) \<in> ?F\<^sup>*" by blast
          from follows_same_file [OF this] m have "metas_by_name ms (boundary_name x) = Inr m"
            by (simp add: boundary_name_def)
          with x(2) have "(x, t) \<in> ?F" by (auto simp: sidecar_rel_def)
          with new x(1) post(3) show ?thesis by blast
        qed
      qed
    qed (use post(1) in blast)
    with post goal sidecar_rel_local [OF m, of iv] show ?thesis
      by (auto simp: sidecar_inv_def)
  qed
qed

lemma sidecar_inflect_reach:
  assumes "sidecar_inflect depth ms sdcr iv = Inr left"
  shows "left = (sidecar_rel ms iv)\<^sup>* `` set sdcr"
proof -
  from assms have "res_fold (\<lambda>sg leftover. res_bind (metas_by_name ms (boundary_name sg))
      (\<lambda>meta. sidecar_dfs depth (m_edge meta) iv sg leftover)) sdcr {} = Inr left"
    by (auto simp: sidecar_inflect_def res_elims)
  then have "sidecar_inv ms iv ([] @ sdcr) left"
    by (rule res_fold_trace_Inr [where I = "sidecar_inv ms iv"])
      (auto simp: sidecar_inv_def [of _ _ "[]"] res_elims intro: sidecar_step)
  then show ?thesis by (simp add: sidecar_inv_def)
qed

lemma card_Range_follows: "card (Range (follows edges iv)) \<le> length edges"
proof -
  have "Range (follows edges iv) \<subseteq> (\<lambda>e. the (e_to e)) ` set edges"
    by (force simp: follows_def)
  then have "card (Range (follows edges iv)) \<le> card ((\<lambda>e. the (e_to e)) ` set edges)"
    by (rule card_mono [rotated]) simp
  also have "\<dots> \<le> length edges"
    by (meson List.finite_set card_image_le card_length le_trans)
  finally show ?thesis .
qed

text \<open>Enough depth: one more than the number of call edges of the file, and one for the start.\<close>

lemma sidecar_dfs_returns:
  assumes "Suc (length edges) < n"
  shows "\<exists>left'. sidecar_dfs n edges iv s left = Inr left'"
proof (rule sidecar_dfs_terminates)
  let ?F = "insert s (Range (follows edges iv))"
  show fin: "finite ?F" by (simp add: finite_Range)
  have "card (?F - left) \<le> card ?F" using fin by (intro card_mono) auto
  also have "\<dots> \<le> Suc (card (Range (follows edges iv)))" by (simp add: card_insert_if finite_Range)
  also have "\<dots> \<le> Suc (length edges)" by (simp add: card_Range_follows)
  finally show "card (?F - left) < n" using assms by simp
qed auto

lemma sidecar_inflect_returns:
  assumes "set sdcr \<subseteq> iv"
    and "\<And>s. s \<in> set sdcr \<Longrightarrow> \<exists>m. metas_by_name ms (boundary_name s) = Inr m \<and> Suc (length (m_edge m)) < depth"
  shows "\<exists>left. sidecar_inflect depth ms sdcr iv = Inr left"
proof -
  have "\<exists>t. res_fold (\<lambda>sg leftover. res_bind (metas_by_name ms (boundary_name sg))
      (\<lambda>meta. sidecar_dfs depth (m_edge meta) iv sg leftover)) sdcr {} = Inr t \<and> True"
  proof (rule res_fold_total)
    fix s left assume "s \<in> set sdcr"
    with assms(2) obtain m where "metas_by_name ms (boundary_name s) = Inr m" "Suc (length (m_edge m)) < depth"
      by blast
    with sidecar_dfs_returns [of "m_edge m" depth iv s left]
    show "\<exists>s'. res_bind (metas_by_name ms (boundary_name s)) (\<lambda>meta. sidecar_dfs depth (m_edge meta) iv s left)
        = Inr s' \<and> True" by auto
  qed simp
  moreover have "set sdcr - iv = {}" using assms(1) by blast
  ultimately show ?thesis by (auto simp: sidecar_inflect_def)
qed

subsection \<open>Properties\<close>

text \<open>C29: the sidecar search terminates: for linked sidecars whose metadata exists, a recursion
  depth above the number of edges of each file plus one gives a result, cycles included.\<close>

theorem sidecar_inflect_terminates:
  assumes "set sdcr \<subseteq> iv"
    and "\<forall>s \<in> set sdcr. \<exists>m. metas_by_name ms (boundary_name s) = Inr m \<and> length (m_edge m) + 1 < depth"
  shows "\<exists>left. sidecar_inflect depth ms sdcr iv = Inr left"
  using assms by (intro sidecar_inflect_returns) auto

theorem sidecar_inflect_terminates_witness:
  "\<exists>left. sidecar_inflect 4
     [(''a.c.boundary'', \<lparr>m_fn = [], m_var = [], m_edge =
        [\<lparr>e_from = (''f'', ''a.c''), e_to = Some (''g'', ''a.c'')\<rparr>, \<lparr>e_from = (''g'', ''a.c''), e_to = Some (''f'', ''a.c'')\<rparr>],
        m_callback = [], m_interface = [], m_struct = []\<rparr>)]
     [(''f'', ''a.c'')] {(''f'', ''a.c'')} = Inr left"
  by (rule sidecar_inflect_terminates) (simp_all add: metas_by_name_def boundary_name_def)

end
