(* ===== verification/Arithmetics.thy ===== *)
theory Arithmetics
  imports Inflect Sidecar Linkage
begin

text \<open>
  \<open>func_class_arithmetics\<close> of \<open>boundary/analyze.py\<close>: the set algebra that assigns every
  function to its classes. The attribute assignments of the code are record updates in the
  same order. The locale \<open>boundary_contract\<close> collects what the later stages may rely on.
\<close>

definition classify_callbacks :: "func_class \<Rightarrow> func_class" where
  "classify_callbacks fns =
     (let fns = fns\<lparr>callback := callback fns - interface fns\<rparr>;
          fns = fns\<lparr>cb_opt := callback fns - in_vmlinux fns\<rparr>;
          fns = fns\<lparr>callback := callback fns - cb_opt fns\<rparr>;
          fns = fns\<lparr>border := interface fns \<union> callback fns\<rparr>
      in fns\<lparr>initial_insider := mod_fns fns - border fns - export fns\<rparr>)"

definition classify_outsiders :: "call list \<Rightarrow> func_class \<Rightarrow> func_class" where
  "classify_outsiders edges fns =
     (let fns = fns\<lparr>inflect_cut := border fns \<union> init fns \<union> fc_sidecar fns\<rparr>;
          fns = fns\<lparr>insider := inflect (initial_insider fns) edges (inflect_cut fns) - init fns - fake_global fns\<rparr>;
          fns = fns\<lparr>sched_outsider := (mod_fns fns - insider fns - border fns) \<union> cb_opt fns\<rparr>;
          fns = fns\<lparr>sched_outsider := sched_outsider fns \<union> (fake_global fns \<inter> mod_fns fns)\<rparr>;
          fns = fns\<lparr>outsider_opt := sched_outsider fns - in_vmlinux fns - init fns\<rparr>;
          fns = fns\<lparr>public_user := fn fns - insider fns - border fns\<rparr>;
          fns = fns\<lparr>tainted := (border fns \<union> insider fns \<union> fc_sidecar fns) \<inter> in_vmlinux fns\<rparr>
      in fns\<lparr>und := (sched_outsider fns - outsider_opt fns) \<union> border fns \<union> fc_sidecar fns\<rparr>)"

definition func_class_arithmetics ::
  "nat \<Rightarrow> config \<Rightarrow> metas \<Rightarrow> call list \<Rightarrow> func_class \<Rightarrow> func_class res" where
  "func_class_arithmetics depth cfg ms edges fns =
     (let fns = classify_callbacks fns;
          fns = fns\<lparr>fc_sidecar := set (sidecar cfg)\<rparr>
      in res_bind (sidecar_inflect depth ms (sidecar cfg) (in_vmlinux fns)) (\<lambda>left.
           let fns = fns\<lparr>sdcr_left := left\<rparr>;
               fns = fns\<lparr>sdcr_out := sdcr_fns fns - sdcr_left fns\<rparr>
           in res_bind (py_assert (fc_sidecar fns \<inter> border fns = {})
                          ''Function boundary conflict, please check your sidecar config'') (\<lambda>_.
                Inr (classify_outsiders edges fns))))"

lemma classify_callbacks_sel:
  "callback (classify_callbacks c) = (callback c - interface c) \<inter> in_vmlinux c"
  "cb_opt (classify_callbacks c) = (callback c - interface c) - in_vmlinux c"
  "border (classify_callbacks c) = interface c \<union> ((callback c - interface c) \<inter> in_vmlinux c)"
  "initial_insider (classify_callbacks c) =
     mod_fns c - (interface c \<union> ((callback c - interface c) \<inter> in_vmlinux c)) - export c"
  by (auto simp: classify_callbacks_def Let_def)

lemma classify_callbacks_frame [simp]:
  "fn (classify_callbacks c) = fn c" "init (classify_callbacks c) = init c"
  "mod_fns (classify_callbacks c) = mod_fns c" "sdcr_fns (classify_callbacks c) = sdcr_fns c"
  "interface (classify_callbacks c) = interface c" "fake_global (classify_callbacks c) = fake_global c"
  "in_vmlinux (classify_callbacks c) = in_vmlinux c" "export (classify_callbacks c) = export c"
  "mangled (classify_callbacks c) = mangled c" "weak (classify_callbacks c) = weak c"
  by (simp_all add: classify_callbacks_def Let_def)

lemma classify_outsiders_frame [simp]:
  "fn (classify_outsiders es c) = fn c" "init (classify_outsiders es c) = init c"
  "mod_fns (classify_outsiders es c) = mod_fns c" "sdcr_fns (classify_outsiders es c) = sdcr_fns c"
  "interface (classify_outsiders es c) = interface c" "fake_global (classify_outsiders es c) = fake_global c"
  "in_vmlinux (classify_outsiders es c) = in_vmlinux c" "export (classify_outsiders es c) = export c"
  "mangled (classify_outsiders es c) = mangled c" "weak (classify_outsiders es c) = weak c"
  "callback (classify_outsiders es c) = callback c" "cb_opt (classify_outsiders es c) = cb_opt c"
  "border (classify_outsiders es c) = border c" "initial_insider (classify_outsiders es c) = initial_insider c"
  "fc_sidecar (classify_outsiders es c) = fc_sidecar c" "sdcr_left (classify_outsiders es c) = sdcr_left c"
  "sdcr_out (classify_outsiders es c) = sdcr_out c"
  by (simp_all add: classify_outsiders_def Let_def)

lemma classify_outsiders_sel:
  "inflect_cut (classify_outsiders es c) = border c \<union> init c \<union> fc_sidecar c"
  "insider (classify_outsiders es c) =
     inflect (initial_insider c) es (border c \<union> init c \<union> fc_sidecar c) - init c - fake_global c"
  "sched_outsider (classify_outsiders es c) =
     (mod_fns c - insider (classify_outsiders es c) - border c) \<union> cb_opt c \<union> (fake_global c \<inter> mod_fns c)"
  "outsider_opt (classify_outsiders es c) = sched_outsider (classify_outsiders es c) - in_vmlinux c - init c"
  "public_user (classify_outsiders es c) = fn c - insider (classify_outsiders es c) - border c"
  "tainted (classify_outsiders es c) =
     (border c \<union> insider (classify_outsiders es c) \<union> fc_sidecar c) \<inter> in_vmlinux c"
  "und (classify_outsiders es c) =
     (sched_outsider (classify_outsiders es c) - outsider_opt (classify_outsiders es c)) \<union> border c \<union> fc_sidecar c"
  by (simp_all add: classify_outsiders_def Let_def)

text \<open>A successful run, field by field.\<close>

lemma arithmetics_run:
  assumes "func_class_arithmetics depth cfg ms edges c0 = Inr c"
  obtains left where
    "sidecar_inflect depth ms (sidecar cfg) (in_vmlinux c0) = Inr left"
    "set (sidecar cfg) \<inter> border (classify_callbacks c0) = {}"
    "c = classify_outsiders edges ((classify_callbacks c0)\<lparr>fc_sidecar := set (sidecar cfg),
           sdcr_left := left, sdcr_out := sdcr_fns c0 - left\<rparr>)"
  using assms by (auto simp: func_class_arithmetics_def Let_def res_elims)

lemma arithmetics_fields:
  assumes "func_class_arithmetics depth cfg ms edges c0 = Inr c"
  shows "fn c = fn c0" "init c = init c0" "mod_fns c = mod_fns c0" "sdcr_fns c = sdcr_fns c0"
    "interface c = interface c0" "fake_global c = fake_global c0" "in_vmlinux c = in_vmlinux c0"
    "export c = export c0" "mangled c = mangled c0"
    "callback c = (callback c0 - interface c0) \<inter> in_vmlinux c0"
    "cb_opt c = (callback c0 - interface c0) - in_vmlinux c0"
    "border c = interface c \<union> callback c"
    "initial_insider c = mod_fns c - border c - export c"
    "fc_sidecar c = set (sidecar cfg)"
    "fc_sidecar c \<inter> border c = {}"
    "sidecar_inflect depth ms (sidecar cfg) (in_vmlinux c) = Inr (sdcr_left c)"
    "sdcr_out c = sdcr_fns c - sdcr_left c"
    "inflect_cut c = border c \<union> init c \<union> fc_sidecar c"
    "insider c = inflect (initial_insider c) edges (inflect_cut c) - init c - fake_global c"
    "sched_outsider c = (mod_fns c - insider c - border c) \<union> cb_opt c \<union> (fake_global c \<inter> mod_fns c)"
    "outsider_opt c = sched_outsider c - in_vmlinux c - init c"
    "public_user c = fn c - insider c - border c"
    "tainted c = (border c \<union> insider c \<union> fc_sidecar c) \<inter> in_vmlinux c"
    "und c = (sched_outsider c - outsider_opt c) \<union> border c \<union> fc_sidecar c"
proof -
  from assms obtain left where
    l: "sidecar_inflect depth ms (sidecar cfg) (in_vmlinux c0) = Inr left"
    "set (sidecar cfg) \<inter> border (classify_callbacks c0) = {}" and
    c: "c = classify_outsiders edges ((classify_callbacks c0)\<lparr>fc_sidecar := set (sidecar cfg),
           sdcr_left := left, sdcr_out := sdcr_fns c0 - left\<rparr>)"
    by (rule arithmetics_run)
  show "fn c = fn c0" "init c = init c0" "mod_fns c = mod_fns c0" "sdcr_fns c = sdcr_fns c0"
    "interface c = interface c0" "fake_global c = fake_global c0" "in_vmlinux c = in_vmlinux c0"
    "export c = export c0" "mangled c = mangled c0"
    "callback c = (callback c0 - interface c0) \<inter> in_vmlinux c0"
    "cb_opt c = (callback c0 - interface c0) - in_vmlinux c0"
    "border c = interface c \<union> callback c"
    "initial_insider c = mod_fns c - border c - export c"
    "fc_sidecar c = set (sidecar cfg)"
    "fc_sidecar c \<inter> border c = {}"
    "sidecar_inflect depth ms (sidecar cfg) (in_vmlinux c) = Inr (sdcr_left c)"
    "sdcr_out c = sdcr_fns c - sdcr_left c"
    "inflect_cut c = border c \<union> init c \<union> fc_sidecar c"
    "insider c = inflect (initial_insider c) edges (inflect_cut c) - init c - fake_global c"
    "sched_outsider c = (mod_fns c - insider c - border c) \<union> cb_opt c \<union> (fake_global c \<inter> mod_fns c)"
    "outsider_opt c = sched_outsider c - in_vmlinux c - init c"
    "public_user c = fn c - insider c - border c"
    "tainted c = (border c \<union> insider c \<union> fc_sidecar c) \<inter> in_vmlinux c"
    "und c = (sched_outsider c - outsider_opt c) \<union> border c \<union> fc_sidecar c"
    using l unfolding c by (simp_all add: classify_callbacks_sel classify_outsiders_sel)
qed

subsection \<open>The contract of a classification\<close>

text \<open>
  What the extraction stage and the module loader rely on, for any producer of a
  classification. \<open>calls i f t\<close> says that the call graph given to the producer has an edge
  from \<open>f\<close> to \<open>t\<close>.
\<close>

locale boundary_contract =
  fixes produce :: "'i \<Rightarrow> func_class res"
    and calls :: "'i \<Rightarrow> sig \<Rightarrow> sig \<Rightarrow> bool"
  assumes border_split: "produce i = Inr c \<Longrightarrow> border c = interface c \<union> callback c"
    and callback_disjoint: "produce i = Inr c \<Longrightarrow> callback c \<inter> interface c = {}"
    and sidecar_disjoint: "produce i = Inr c \<Longrightarrow> fc_sidecar c \<inter> border c = {}"
    and sidecar_linked: "produce i = Inr c \<Longrightarrow> fc_sidecar c \<subseteq> in_vmlinux c"
    and callback_linked: "produce i = Inr c \<Longrightarrow> callback c \<subseteq> in_vmlinux c"
    and insider_inner: "produce i = Inr c \<Longrightarrow>
      insider c \<subseteq> mod_fns c - border c - export c - init c - fake_global c"
    and insider_callers: "produce i = Inr c \<Longrightarrow> calls i f t \<Longrightarrow> t \<in> insider c \<Longrightarrow>
      f \<in> insider c \<union> border c \<union> init c \<union> fc_sidecar c \<union> fake_global c"
    and outsider_complement: "produce i = Inr c \<Longrightarrow>
      sched_outsider c = (mod_fns c - insider c - border c) \<union> cb_opt c \<union> (fake_global c \<inter> mod_fns c)"
    and cb_opt_unlinked: "produce i = Inr c \<Longrightarrow> cb_opt c \<inter> (in_vmlinux c \<union> interface c) = {}"
    and outsider_opt_eq: "produce i = Inr c \<Longrightarrow> outsider_opt c = sched_outsider c - in_vmlinux c - init c"
    and tainted_eq: "produce i = Inr c \<Longrightarrow> tainted c = (border c \<union> insider c \<union> fc_sidecar c) \<inter> in_vmlinux c"
    and und_eq: "produce i = Inr c \<Longrightarrow> und c = (sched_outsider c - outsider_opt c) \<union> border c \<union> fc_sidecar c"
begin

lemma mod_fns_covered: "produce i = Inr c \<Longrightarrow> mod_fns c \<subseteq> insider c \<union> border c \<union> sched_outsider c"
  using outsider_complement by blast

lemma linked_insider_not_outsider:
  "produce i = Inr c \<Longrightarrow> f \<in> insider c \<Longrightarrow> f \<in> in_vmlinux c \<Longrightarrow> f \<notin> sched_outsider c"
  using outsider_complement insider_inner cb_opt_unlinked by blast

lemma insider_outsider_overlap:
  assumes "produce i = Inr c"
  shows "insider c \<inter> sched_outsider c = insider c \<inter> cb_opt c"
  using outsider_complement [OF assms] insider_inner [OF assms] by blast

lemma border_outsider_overlap:
  assumes "produce i = Inr c"
  shows "border c \<inter> sched_outsider c = border c \<inter> fake_global c \<inter> mod_fns c"
  using outsider_complement [OF assms] border_split [OF assms] cb_opt_unlinked [OF assms] callback_linked [OF assms]
  by blast

lemma outsider_does_not_call_insider:
  assumes "produce i = Inr c" "calls i f t" "t \<in> insider c"
    and "f \<in> sched_outsider c" "f \<in> in_vmlinux c" "f \<notin> init c" "f \<notin> fc_sidecar c" "f \<notin> fake_global c"
  shows False
  using insider_callers [OF assms(1-3)] assms(4-8) linked_insider_not_outsider [OF assms(1)]
    border_outsider_overlap [OF assms(1)] by blast

lemma und_linked:
  assumes "produce i = Inr c" "f \<in> und c" "f \<notin> interface c" "f \<notin> init c"
  shows "f \<in> in_vmlinux c"
  using assms und_eq [OF assms(1)] outsider_opt_eq [OF assms(1)] border_split [OF assms(1)]
    callback_linked [OF assms(1)] sidecar_linked [OF assms(1)] by blast

end

type_synonym arith_input = "nat \<times> config \<times> metas \<times> call list \<times> func_class"

definition arithmetics_of :: "arith_input \<Rightarrow> func_class res" where
  "arithmetics_of = (\<lambda>(depth, cfg, ms, edges, c0). func_class_arithmetics depth cfg ms edges c0)"

definition arith_calls :: "arith_input \<Rightarrow> sig \<Rightarrow> sig \<Rightarrow> bool" where
  "arith_calls = (\<lambda>(depth, cfg, ms, edges, c0) f t. (f, t) \<in> set edges)"

lemma sidecar_inflect_linked: "sidecar_inflect depth ms ss iv = Inr left \<Longrightarrow> set ss \<subseteq> iv"
  by (auto simp: sidecar_inflect_def res_elims)

interpretation arith: boundary_contract arithmetics_of arith_calls
proof (unfold_locales, goal_cases)
  case (7 i c f t)
  obtain depth cfg ms edges c0 where i: "i = (depth, cfg, ms, edges, c0)" by (cases i)
  with 7 have run: "func_class_arithmetics depth cfg ms edges c0 = Inr c" and e: "(f, t) \<in> set edges"
    by (simp_all add: arithmetics_of_def arith_calls_def)
  note fields = arithmetics_fields [OF run]
  from 7(3) have "t \<in> inflect (initial_insider c) edges (inflect_cut c)" by (simp add: fields(19))
  from inflect_callers [OF e this] fields(18,19) show ?case by blast
next
  case (3 i c)
  then show ?case by (cases i) (simp only: arithmetics_of_def prod.case arithmetics_fields(15))
next
  case (4 i c)
  then show ?case
    by (cases i) (simp add: arithmetics_of_def, metis arithmetics_fields(14,16) sidecar_inflect_linked)
next
  case (6 i c)
  obtain depth cfg ms edges c0 where i: "i = (depth, cfg, ms, edges, c0)" by (cases i)
  with 6 have run: "func_class_arithmetics depth cfg ms edges c0 = Inr c" by (simp add: arithmetics_of_def)
  from inflect_subset [of "initial_insider c" edges "inflect_cut c"] arithmetics_fields(13,19) [OF run]
  show ?case by blast
qed (auto simp: arithmetics_of_def arithmetics_fields dest: arithmetics_fields split: prod.splits)

end
