(* ===== verification/Redirect.thy ===== *)
theory Redirect
  imports Linkage Sidecar
begin

text \<open>
  \<open>check_redirect_mangled\<close> of \<open>boundary/analyze.py\<close>: the search up the callers of a
  function that the compiler optimised, for one that is an outsider. As in \<open>Sidecar\<close> the
  first argument is the recursion depth the interpreter still allows. The state of the
  loop is whether the function has already returned \<open>True\<close>.
\<close>

fun check_redirect_mangled :: "nat \<Rightarrow> func_class \<Rightarrow> edge list \<Rightarrow> sig \<Rightarrow> bool res" where
  "check_redirect_mangled 0 c edges f = Inl RecursionError"
| "check_redirect_mangled (Suc depth) c edges f =
     res_fold (\<lambda>e returned.
         if returned then Inr True
         else case e_to e of
             None \<Rightarrow> Inr False
           | Some to_sym \<Rightarrow>
               if to_sym \<noteq> f \<or> snd to_sym \<noteq> snd (e_from e) then Inr False
               else if e_from e \<in> sched_outsider c then Inr True
               else if e_from e \<in> mangled c \<or> e_from e \<notin> in_vmlinux c
                    then check_redirect_mangled depth c edges (e_from e)
               else Inr False)
       edges False"

subsection \<open>What the search decides\<close>

text \<open>A caller of \<open>f\<close> in its own file; and the callers the search climbs to.\<close>

definition local_caller :: "edge list \<Rightarrow> sig \<Rightarrow> sig \<Rightarrow> bool" where
  "local_caller edges g f \<longleftrightarrow> (\<exists>e \<in> set edges. e_from e = g \<and> e_to e = Some f \<and> snd f = snd g)"

definition climbs :: "func_class \<Rightarrow> edge list \<Rightarrow> sig \<Rightarrow> sig \<Rightarrow> bool" where
  "climbs c edges g f \<longleftrightarrow> local_caller edges g f \<and> g \<notin> sched_outsider c \<and> (g \<in> mangled c \<or> g \<notin> in_vmlinux c)"

inductive unsafe_redirect :: "func_class \<Rightarrow> edge list \<Rightarrow> sig \<Rightarrow> bool"
  for c :: func_class and edges :: "edge list"
where
  called_by_outsider: "local_caller edges g f \<Longrightarrow> g \<in> sched_outsider c \<Longrightarrow> unsafe_redirect c edges f"
| called_by_optimised: "climbs c edges g f \<Longrightarrow> unsafe_redirect c edges g \<Longrightarrow> unsafe_redirect c edges f"

inductive_cases unsafe_redirectE: "unsafe_redirect c edges f"

text \<open>The verdict on one edge, given the verdict of the recursive call.\<close>

definition edge_verdict :: "nat \<Rightarrow> func_class \<Rightarrow> edge list \<Rightarrow> sig \<Rightarrow> edge \<Rightarrow> bool res" where
  "edge_verdict depth c edges f e =
     (case e_to e of
        None \<Rightarrow> Inr False
      | Some to_sym \<Rightarrow>
          if to_sym \<noteq> f \<or> snd to_sym \<noteq> snd (e_from e) then Inr False
          else if e_from e \<in> sched_outsider c then Inr True
          else if e_from e \<in> mangled c \<or> e_from e \<notin> in_vmlinux c
               then check_redirect_mangled depth c edges (e_from e)
          else Inr False)"

lemma check_redirect_Suc:
  "check_redirect_mangled (Suc depth) c edges f =
     res_fold (\<lambda>e returned. if returned then Inr True else edge_verdict depth c edges f e) edges False"
  by (simp only: check_redirect_mangled.simps edge_verdict_def)

declare check_redirect_mangled.simps(2) [simp del]

lemma scan_True [simp]: "res_fold (\<lambda>e b. if b then Inr True else v e) es True = Inr True"
  by (induction es) auto

lemma scan_Cons:
  "res_fold (\<lambda>e b. if b then Inr True else v e) (e # es) False =
     (case v e of Inl x \<Rightarrow> Inl x | Inr True \<Rightarrow> Inr True
      | Inr False \<Rightarrow> res_fold (\<lambda>e b. if b then Inr True else v e) es False)"
  by (auto split: sum.splits bool.splits)

lemma scan_Inr_False:
  "res_fold (\<lambda>e b. if b then Inr True else v e) es False = Inr False \<longleftrightarrow> (\<forall>e \<in> set es. v e = Inr False)"
  by (induction es) (auto simp: scan_Cons simp del: res_fold.simps(2) split: sum.splits bool.splits)

lemma scan_Inr_True:
  "res_fold (\<lambda>e b. if b then Inr True else v e) es False = Inr True \<Longrightarrow> \<exists>e \<in> set es. v e = Inr True"
  by (induction es) (auto simp: scan_Cons simp del: res_fold.simps(2) split: sum.splits bool.splits)

lemma scan_Inl:
  "res_fold (\<lambda>e b. if b then Inr True else v e) es False = Inl x \<Longrightarrow> \<exists>e \<in> set es. v e = Inl x"
  by (induction es) (auto simp: scan_Cons simp del: res_fold.simps(2) split: sum.splits bool.splits)

lemma edge_verdict_cases:
  assumes "e \<in> set edges"
  obtains (other) "edge_verdict n c edges f e = Inr False"
      "\<not> (e_to e = Some f \<and> snd f = snd (e_from e) \<and> (e_from e \<in> sched_outsider c \<or> climbs c edges (e_from e) f))"
  | (outsider) "edge_verdict n c edges f e = Inr True" "local_caller edges (e_from e) f" "e_from e \<in> sched_outsider c"
  | (climb) "edge_verdict n c edges f e = check_redirect_mangled n c edges (e_from e)" "climbs c edges (e_from e) f"
  using assms
  by (cases "e_to e"; cases "e_to e = Some f \<and> snd f = snd (e_from e)"; cases "e_from e \<in> sched_outsider c";
      cases "e_from e \<in> mangled c \<or> e_from e \<notin> in_vmlinux c")
    (auto simp: edge_verdict_def local_caller_def climbs_def)

lemma check_redirect_sound: "check_redirect_mangled n c edges f = Inr True \<Longrightarrow> unsafe_redirect c edges f"
proof (induction n arbitrary: f)
  case 0
  then show ?case by simp
next
  case (Suc n)
  then obtain e where e: "e \<in> set edges" "edge_verdict n c edges f e = Inr True"
    by (auto simp: check_redirect_Suc dest: scan_Inr_True)
  from e(1) show ?case
  proof (cases rule: edge_verdict_cases [where n = n and c = c and f = f])
    case climb
    with e(2) Suc.IH [of "e_from e"] show ?thesis by (simp add: called_by_optimised)
  qed (use e(2) in \<open>auto intro: called_by_outsider\<close>)
qed

lemma check_redirect_complete: "check_redirect_mangled n c edges f = Inr False \<Longrightarrow> \<not> unsafe_redirect c edges f"
proof (induction n arbitrary: f)
  case 0
  then show ?case by simp
next
  case (Suc n)
  then have all: "\<forall>e \<in> set edges. edge_verdict n c edges f e = Inr False"
    by (simp add: check_redirect_Suc scan_Inr_False)
  show ?case
  proof
    assume "unsafe_redirect c edges f"
    then show False
    proof (rule unsafe_redirectE)
      fix g assume g: "local_caller edges g f" "g \<in> sched_outsider c"
      then obtain e where "e \<in> set edges" "e_from e = g" "e_to e = Some f" "snd f = snd g"
        by (auto simp: local_caller_def)
      with all g(2) show False by (fastforce simp: edge_verdict_def)
    next
      fix g assume g: "climbs c edges g f" "unsafe_redirect c edges g"
      then obtain e where e: "e \<in> set edges" "e_from e = g" "e_to e = Some f" "snd f = snd g"
        by (auto simp: climbs_def local_caller_def)
      with g(1) have "edge_verdict n c edges f e = check_redirect_mangled n c edges g"
        by (auto simp: edge_verdict_def climbs_def)
      with all e(1) Suc.IH g(2) show False by auto
    qed
  qed
qed

lemma check_redirect_iff: "check_redirect_mangled n c edges f = Inr b \<Longrightarrow> b \<longleftrightarrow> unsafe_redirect c edges f"
  using check_redirect_sound check_redirect_complete by (cases b) auto

lemma check_redirect_error: "check_redirect_mangled n c edges f = Inl x \<Longrightarrow> x = RecursionError"
proof (induction n arbitrary: f)
  case 0
  then show ?case by simp
next
  case (Suc n)
  then obtain e where e: "e \<in> set edges" "edge_verdict n c edges f e = Inl x"
    by (auto simp: check_redirect_Suc dest: scan_Inl)
  from e(1) show ?case
    by (cases rule: edge_verdict_cases [where n = n and c = c and f = f]) (use e(2) Suc.IH in auto)
qed

subsection \<open>When the search returns\<close>

definition climb_rel :: "func_class \<Rightarrow> edge list \<Rightarrow> (sig \<times> sig) set" where
  "climb_rel c edges = {(g, f). climbs c edges g f}"

lemma finite_climb_rel [simp]: "finite (climb_rel c edges)"
proof -
  have "climb_rel c edges \<subseteq> (\<lambda>e. (e_from e, the (e_to e))) ` set edges"
    by (force simp: climb_rel_def climbs_def local_caller_def)
  then show ?thesis by (rule finite_subset) simp
qed

definition climb_ancestors :: "func_class \<Rightarrow> edge list \<Rightarrow> sig \<Rightarrow> sig set" where
  "climb_ancestors c edges f = {g. (g, f) \<in> (climb_rel c edges)\<^sup>+}"

lemma finite_climb_ancestors [simp]: "finite (climb_ancestors c edges f)"
proof -
  have "climb_ancestors c edges f \<subseteq> Domain (climb_rel c edges)"
    by (auto simp: climb_ancestors_def dest: tranclD)
  then show ?thesis by (rule finite_subset) (simp add: finite_Domain)
qed

lemma climb_ancestors_decrease:
  assumes "acyclic (climb_rel c edges)" "climbs c edges g f"
  shows "card (climb_ancestors c edges g) < card (climb_ancestors c edges f)"
proof (rule psubset_card_mono)
  from assms(2) have gf: "(g, f) \<in> climb_rel c edges" by (simp add: climb_rel_def)
  have "g \<notin> climb_ancestors c edges g" using assms(1) unfolding climb_ancestors_def acyclic_def by blast
  moreover have "g \<in> climb_ancestors c edges f" using gf by (auto simp: climb_ancestors_def)
  moreover have "climb_ancestors c edges g \<subseteq> climb_ancestors c edges f"
    using gf by (auto simp: climb_ancestors_def intro: trancl_into_trancl)
  ultimately show "climb_ancestors c edges g \<subset> climb_ancestors c edges f" by blast
qed simp

lemma check_redirect_returns_aux:
  assumes "acyclic (climb_rel c edges)"
  shows "card (climb_ancestors c edges f) < n \<Longrightarrow> \<exists>b. check_redirect_mangled n c edges f = Inr b"
proof (induction n arbitrary: f)
  case 0
  then show ?case by simp
next
  case (Suc n)
  show ?case
  proof (cases "check_redirect_mangled (Suc n) c edges f")
    case (Inl x)
    then obtain e where e: "e \<in> set edges" "edge_verdict n c edges f e = Inl x"
      by (auto simp: check_redirect_Suc dest: scan_Inl)
    from e(1) have False
    proof (cases rule: edge_verdict_cases [where n = n and c = c and f = f])
      case climb
      from climb_ancestors_decrease [OF assms climb(2)] Suc.prems
      have "card (climb_ancestors c edges (e_from e)) < n" by simp
      from Suc.IH [OF this] climb(1) e(2) show False by auto
    qed (use e(2) in auto)
    then show ?thesis ..
  next
    case (Inr b)
    then show ?thesis by blast
  qed
qed

lemma card_climb_ancestors: "card (climb_ancestors c edges f) \<le> length edges"
proof -
  have "climb_ancestors c edges f \<subseteq> e_from ` set edges"
  proof
    fix g assume "g \<in> climb_ancestors c edges f"
    then obtain h where "climbs c edges g h"
      by (auto simp: climb_ancestors_def climb_rel_def dest: tranclD)
    then show "g \<in> e_from ` set edges" by (auto simp: climbs_def local_caller_def)
  qed
  then have "card (climb_ancestors c edges f) \<le> card (e_from ` set edges)"
    by (rule card_mono [rotated]) simp
  also have "\<dots> \<le> length edges" by (meson List.finite_set card_image_le card_length le_trans)
  finally show ?thesis .
qed

text \<open>A function that climbs to itself makes the search recurse without end.\<close>

lemma check_redirect_self:
  assumes "climbs c edges f f" "\<not> unsafe_redirect c edges f"
  shows "check_redirect_mangled n c edges f = Inl RecursionError"
proof (induction n)
  case 0
  show ?case by simp
next
  case (Suc n)
  show ?case
  proof (cases "check_redirect_mangled (Suc n) c edges f")
    case (Inl x)
    with check_redirect_error show ?thesis by metis
  next
    case (Inr b)
    with check_redirect_iff assms(2) have "check_redirect_mangled (Suc n) c edges f = Inr False" by (cases b) auto
    then have all: "\<forall>e \<in> set edges. edge_verdict n c edges f e = Inr False"
      by (simp add: check_redirect_Suc scan_Inr_False)
    from assms(1) obtain e where "e \<in> set edges" "e_from e = f" "e_to e = Some f"
      by (auto simp: climbs_def local_caller_def)
    with assms(1) all have "check_redirect_mangled n c edges f = Inr False"
      by (auto simp: edge_verdict_def climbs_def)
    with Suc.IH show ?thesis by simp
  qed
qed

subsection \<open>Properties\<close>

text \<open>C13: a search for outsider callers that returns, returns whether the function is reached
  from an outsider of its file through optimised or unlinked callers.\<close>

theorem check_redirect_correct:
  assumes "check_redirect_mangled depth c edges f = Inr b"
  shows "b \<longleftrightarrow> unsafe_redirect c edges f"
  by (rule check_redirect_iff [OF assms])

theorem check_redirect_correct_witness:
  "unsafe_redirect (empty_func_class\<lparr>sched_outsider := {(''g'', ''a.c'')}\<rparr>)
     [\<lparr>e_from = (''g'', ''a.c''), e_to = Some (''f'', ''a.c'')\<rparr>] (''f'', ''a.c'')"
proof -
  have "check_redirect_mangled 1 (empty_func_class\<lparr>sched_outsider := {(''g'', ''a.c'')}\<rparr>)
     [\<lparr>e_from = (''g'', ''a.c''), e_to = Some (''f'', ''a.c'')\<rparr>] (''f'', ''a.c'') = Inr True"
    by code_simp
  from check_redirect_correct [OF this] show ?thesis by simp
qed

text \<open>C30: the search returns, with a recursion depth above the number of edges, wherever the
  optimised callers form no cycle.\<close>

theorem check_redirect_returns:
  assumes "acyclic (climb_rel c edges)" "length edges < depth"
  shows "\<exists>b. check_redirect_mangled depth c edges f = Inr b"
  using check_redirect_returns_aux [OF assms(1)] card_climb_ancestors [of c edges f] assms(2)
  by (meson le_less_trans)

theorem check_redirect_returns_witness:
  "\<exists>b. check_redirect_mangled 2 (empty_func_class\<lparr>mangled := {(''g'', ''a.c'')}\<rparr>)
     [\<lparr>e_from = (''g'', ''a.c''), e_to = Some (''f'', ''a.c'')\<rparr>] (''f'', ''a.c'') = Inr b"
proof (rule check_redirect_returns)
  have "climb_rel (empty_func_class\<lparr>mangled := {(''g'', ''a.c'')}\<rparr>)
      [\<lparr>e_from = (''g'', ''a.c''), e_to = Some (''f'', ''a.c'')\<rparr>] \<subseteq> {((''g'', ''a.c''), (''f'', ''a.c''))}"
    by (auto simp: climb_rel_def climbs_def local_caller_def)
  moreover have "acyclic {((''g'', ''a.c''), (''f'', ''a.c''))}" by (auto intro!: acyclicI simp: trancl_insert2)
  ultimately show "acyclic (climb_rel (empty_func_class\<lparr>mangled := {(''g'', ''a.c'')}\<rparr>)
      [\<lparr>e_from = (''g'', ''a.c''), e_to = Some (''f'', ''a.c'')\<rparr>])" by (rule acyclic_subset [rotated])
qed simp

text \<open>C39: on an optimised border function that calls itself and that no outsider reaches, the
  search does not return: it exhausts every recursion depth.\<close>

theorem check_redirect_diverges:
  assumes "\<lparr>e_from = f, e_to = Some f\<rparr> \<in> set edges" "f \<in> mangled c" "\<not> unsafe_redirect c edges f"
  shows "check_redirect_mangled depth c edges f = Inl RecursionError"
proof (rule check_redirect_self [OF _ assms(3)])
  from assms(1) have "local_caller edges f f" by (force simp: local_caller_def)
  with assms(2,3) show "climbs c edges f f" by (auto simp: climbs_def intro: called_by_outsider)
qed

theorem check_redirect_diverges_witness:
  "\<forall>depth. check_redirect_mangled depth (empty_func_class\<lparr>mangled := {(''f'', ''a.c'')}\<rparr>)
     [\<lparr>e_from = (''f'', ''a.c''), e_to = Some (''f'', ''a.c'')\<rparr>] (''f'', ''a.c'') = Inl RecursionError"
proof (intro allI check_redirect_diverges)
  show "\<not> unsafe_redirect (empty_func_class\<lparr>mangled := {(''f'', ''a.c'')}\<rparr>)
     [\<lparr>e_from = (''f'', ''a.c''), e_to = Some (''f'', ''a.c'')\<rparr>] (''f'', ''a.c'')"
  proof
    assume "unsafe_redirect (empty_func_class\<lparr>mangled := {(''f'', ''a.c'')}\<rparr>)
      [\<lparr>e_from = (''f'', ''a.c''), e_to = Some (''f'', ''a.c'')\<rparr>] (''f'', ''a.c'')"
    then show False by (induction) (auto simp: empty_func_class_def)
  qed
qed (simp_all add: empty_func_class_def)

end
