(* ===== verification/Analyze.thy ===== *)
theory Analyze
  imports Vmlinux Arithmetics Redirect
begin

text \<open>
  The main block of \<open>boundary/analyze.py\<close>: second pass, classification, struct fields,
  sanity checks and the generated headers. A set that the code iterates is iterated in the
  order the parameter \<open>order\<close> gives; the theorems assume only that it lists each element
  of a finite set once (\<open>iterates\<close>).
\<close>

definition iterates :: "('a set \<Rightarrow> 'a list) \<Rightarrow> bool" where
  "iterates order \<longleftrightarrow> (\<forall>S. finite S \<longrightarrow> set (order S) = S \<and> distinct (order S))"

lemma iterates_sorted: "iterates (sorted_list_of_set :: 'a::linorder set \<Rightarrow> 'a list)"
  by (simp add: iterates_def)

lemma iterates_set: "iterates order \<Longrightarrow> finite S \<Longrightarrow> set (order S) = S"
  by (simp add: iterates_def)

subsection \<open>Reading the metadata files\<close>

text \<open>
  \<open>os.walk\<close> gives directories with the names of their files; the directories start with a
  dot. \<open>read_metas\<close> is the loop that fills \<open>metas\<close> and \<open>metas_by_name\<close>; \<open>read_meta\<close>, which
  decodes a JSON file, is a parameter.
\<close>

definition meta_candidates :: "(string \<times> string list) list \<Rightarrow> (string \<times> string) list" where
  "meta_candidates walk = concat (map (\<lambda>(r, files). map (Pair r) (filter (\<lambda>f. ends_with f ''.boundary'') files)) walk)"

definition meta_path :: "string \<times> string \<Rightarrow> string res" where
  "meta_path = (\<lambda>(r, f).
     let path = path_join r f in res_bind (py_assert (starts_with path ''./'') '''') (\<lambda>_. Inr (drop 2 path)))"

definition all_meta_files :: "(string \<times> string list) list \<Rightarrow> string list res" where
  "all_meta_files walk = res_list meta_path (meta_candidates walk)"

definition read_metas :: "(string \<Rightarrow> raw_edge meta res) \<Rightarrow> (string \<times> string list) list \<Rightarrow> raw_metas res" where
  "read_metas read_meta walk =
     res_list (\<lambda>c. res_bind (meta_path c) (\<lambda>path. res_map (Pair path) (read_meta path))) (meta_candidates walk)"

lemma meta_path_join:
  "r = ''.'' \<or> starts_with r ''./'' \<Longrightarrow> \<not> starts_with f ''/'' \<Longrightarrow> meta_path (r, f) = Inr (drop 2 (path_join r f))"
proof -
  assume r: "r = ''.'' \<or> starts_with r ''./''" and f: "\<not> starts_with f ''/''"
  have "starts_with (path_join r f) ''./''"
  proof (cases "r = ''.''")
    case False
    with r obtain t where "r = ''./'' @ t" by (auto simp: starts_with_iff)
    with f show ?thesis by (simp add: path_join_def)
  qed (use f in \<open>simp add: path_join_def ends_with_def\<close>)
  then show ?thesis by (simp add: meta_path_def Let_def)
qed

lemma read_metas_each:
  assumes "read_metas read_meta walk = Inr raw" "(r, files) \<in> set walk" "f \<in> set files"
    and "ends_with f ''.boundary''" "meta_path (r, f) = Inr name"
  shows "\<exists>m. read_meta name = Inr m \<and> (name, m) \<in> set raw"
proof -
  have "(r, f) \<in> set (map (Pair r) (filter (\<lambda>f. ends_with f ''.boundary'') files))" using assms(3,4) by simp
  with assms(2) have "(r, f) \<in> set (meta_candidates walk)" unfolding meta_candidates_def by fastforce
  from res_list_elem [OF assms(1) [unfolded read_metas_def] this] assms(5)
  show ?thesis by (auto simp: res_map_Inr_iff)
qed

subsection \<open>Second pass\<close>

definition resolve_callbacks :: "config \<Rightarrow> global_dict \<Rightarrow> 'e meta \<Rightarrow> func_class \<Rightarrow> func_class" where
  "resolve_callbacks cfg gd m c =
     c\<lparr>callback := fold (\<lambda>cb S. case lookup_if_global gd cb of
           None \<Rightarrow> S
         | Some cb \<Rightarrow> if snd cb \<in> set (mod_files cfg) then insert cb S else S)
         (m_callback m) (callback c)\<rparr>"

definition resolve_edge :: "global_dict \<Rightarrow> raw_edge \<Rightarrow> edge" where
  "resolve_edge gd e = \<lparr>e_from = re_from e, e_to = lookup_if_global gd (re_to e)\<rparr>"

definition resolve_meta :: "global_dict \<Rightarrow> raw_edge meta \<Rightarrow> edge meta" where
  "resolve_meta gd m =
     \<lparr>m_fn = m_fn m, m_var = m_var m, m_edge = map (resolve_edge gd) (m_edge m),
      m_callback = m_callback m, m_interface = m_interface m, m_struct = m_struct m\<rparr>"

definition meta_calls :: "edge meta \<Rightarrow> call list" where
  "meta_calls m = List.map_filter (\<lambda>e. map_option (\<lambda>t. (e_from e, t)) (e_to e)) (m_edge m)"

definition second_pass :: "config \<Rightarrow> global_dict \<Rightarrow> raw_metas \<Rightarrow> func_class \<Rightarrow> func_class \<times> metas \<times> call list" where
  "second_pass cfg gd raw c =
     (let ms = map (\<lambda>(name, m). (name, resolve_meta gd m)) raw
      in (fold (\<lambda>(_, m). resolve_callbacks cfg gd m) raw c, ms, concat (map (\<lambda>(_, m). meta_calls m) ms)))"

subsection \<open>Struct fields used from outside\<close>

record struct_prop =
  sp_all_fields :: "string set"
  sp_public_fields :: "string set"
  sp_public_users :: "sig set"

definition add_field_users :: "sig set \<Rightarrow> string \<times> sig list \<Rightarrow> struct_prop \<Rightarrow> struct_prop" where
  "add_field_users pub = (\<lambda>(field, users) p.
     (let p_user = set users \<inter> pub
      in if p_user \<noteq> {}
         then p\<lparr>sp_public_users := sp_public_users p \<union> p_user, sp_public_fields := insert field (sp_public_fields p)\<rparr>
         else p))"

definition add_struct_meta :: "sig set \<Rightarrow> string \<Rightarrow> edge meta \<Rightarrow> struct_prop \<Rightarrow> struct_prop" where
  "add_struct_meta pub struct m p =
     (case map_of (m_struct m) struct of
        None \<Rightarrow> p
      | Some sm \<Rightarrow> fold (add_field_users pub) (public_fields sm)
                    (p\<lparr>sp_all_fields := sp_all_fields p \<union> set (all_fields sm)\<rparr>))"

definition struct_property :: "sig set \<Rightarrow> metas \<Rightarrow> string \<Rightarrow> struct_prop" where
  "struct_property pub ms struct =
     fold (\<lambda>(_, m). add_struct_meta pub struct m) ms
       \<lparr>sp_all_fields = {}, sp_public_fields = {}, sp_public_users = {}\<rparr>"

definition struct_properties :: "sig set \<Rightarrow> metas \<Rightarrow> string \<rightharpoonup> struct_prop" where
  "struct_properties pub ms struct =
     (if list_ex (\<lambda>(_, m). struct \<in> fst ` set (m_struct m)) ms then Some (struct_property pub ms struct) else None)"

subsection \<open>Sanity checks\<close>

definition sanity_check :: "nat \<Rightarrow> metas \<Rightarrow> func_class \<Rightarrow> sig \<Rightarrow> unit res" where
  "sanity_check depth ms c sg =
     res_bind (metas_by_name ms (boundary_name sg)) (\<lambda>meta.
       res_bind (check_redirect_mangled depth c (m_edge meta) sg) (\<lambda>b.
         py_assert (\<not> b) (''trying to redirect the mangled function '' @ fst sg @ '' ('' @ snd sg @ '')'')))"

definition sanity_checks :: "(sig set \<Rightarrow> sig list) \<Rightarrow> nat \<Rightarrow> metas \<Rightarrow> func_class \<Rightarrow> unit res" where
  "sanity_checks order depth ms c =
     res_fold (\<lambda>sg _. sanity_check depth ms c sg) (order ((fc_sidecar c \<union> border c) \<inter> mangled c)) ()"

subsection \<open>The function section of the extraction configuration\<close>

datatype section_value = Names "string set" | Sigs "sig set"

definition classes_out :: "(string \<times> (func_class \<Rightarrow> sig set)) list" where
  "classes_out =
     [(''sched_outsider'', sched_outsider), (''callback'', callback), (''interface'', interface),
      (''init'', init), (''insider'', insider), (''outsider_opt'', outsider_opt),
      (''export'', export), (''sdcr_out'', sdcr_out)]"

definition function_section :: "config \<Rightarrow> func_class \<Rightarrow> string \<rightharpoonup> section_value" where
  "function_section cfg c =
     fold (\<lambda>(k, sel) d. d(k \<mapsto> Sigs (sel c))) classes_out [''interface'' \<mapsto> Names (set (config_interface cfg))]"

subsection \<open>The analysis\<close>

record analysis =
  a_class :: func_class
  a_metas :: metas
  a_edges :: "call list"
  a_globals :: global_dict
  a_warnings :: "string list"
  a_decls :: "sig \<rightharpoonup> decl_str option"
  a_hdr_fns :: "fn_meta list"
  a_sympos :: "sig \<rightharpoonup> nat"
  a_function :: "string \<rightharpoonup> section_value"
  a_structs :: "string \<rightharpoonup> struct_prop"

text \<open>
  The iteration orders of a run are arguments: \<open>order\<close> for the sets of functions (the sanity
  checks here, the headers below), and the lists of \<open>cfg\<close> for the sets of the configuration
  (\<open>get_in_any\<close> and \<open>fullname\<close> for the module files, \<open>sidecar_inflect\<close> for the sidecars). All
  other uses of these sets are membership tests. \<open>analyze_order_independent\<close> compares two
  runs with different orders.
\<close>

definition analyze ::
  "(sig set \<Rightarrow> sig list) \<Rightarrow> nat \<Rightarrow> config \<Rightarrow> raw_metas \<Rightarrow> string list \<Rightarrow> analysis res" where
  "analyze order depth cfg raw elf =
     res_bind (first_pass cfg (map snd raw)) (\<lambda>p1.
     res_bind (link_globals (p1_globals p1)) (\<lambda>l.
       let c = (p1_class p1)\<lparr>fake_global := fake l\<rparr>;
           (c, ms, edges) = second_pass cfg (global_fn_dict l) raw c
       in res_bind (find_in_vmlinux cfg (fn c) elf) (\<lambda>vm.
          let c = c\<lparr>in_vmlinux := vm_in_vmlinux vm, mangled := vm_mangled vm, export := vm_export vm\<rparr>
          in res_bind (func_class_arithmetics depth cfg ms edges c) (\<lambda>c.
             res_bind (sanity_checks order depth ms c) (\<lambda>_.
               Inr \<lparr>a_class = c, a_metas = ms, a_edges = edges, a_globals = global_fn_dict l,
                    a_warnings = warnings l, a_decls = p1_decls p1, a_hdr_fns = p1_hdr_fns p1,
                    a_sympos = local_sympos vm, a_function = function_section cfg c,
                    a_structs = struct_properties (public_user c) ms\<rparr>)))))"

subsection \<open>Generated headers\<close>

definition format_decl :: "string \<Rightarrow> decl_str \<Rightarrow> string" where
  "format_decl macro d = macro @ ''('' @ ds_fn d @ '', '' @ ds_ret d @ '', '' @ ds_params d @ '')'' @ [NL]"

definition decl_of :: "(sig \<rightharpoonup> decl_str option) \<Rightarrow> sig \<Rightarrow> decl_str res" where
  "decl_of ds sg = (case ds sg of
     None \<Rightarrow> Inl (KeyError (fst sg)) | Some None \<Rightarrow> Inl TypeError | Some (Some d) \<Rightarrow> Inr d)"

text \<open>\<open>str\<close> of a pair of plain strings\<close>

definition sig_repr :: "sig \<Rightarrow> string" where
  "sig_repr sg = ''('' @ [CHR 0x27] @ fst sg @ [CHR 0x27] @ '', '' @ [CHR 0x27] @ snd sg @ [CHR 0x27] @ '')''"

definition decl_step ::
  "(sig \<rightharpoonup> decl_str option) \<Rightarrow> global_dict \<Rightarrow> string \<Rightarrow> sig \<Rightarrow> string set \<times> string set \<Rightarrow> (string set \<times> string set) res" where
  "decl_step ds gd macro sg = (\<lambda>(decl_strs, local_syms).
     res_bind (decl_of ds sg) (\<lambda>d.
       let s = format_decl macro d
       in if map_of gd (fst sg) \<noteq> Some (snd sg)
          then res_bind (py_assert (fst sg \<notin> local_syms) (''Attempt to redirect a repeating local symbol '' @ sig_repr sg))
                 (\<lambda>_. Inr (insert s decl_strs, insert (fst sg) local_syms))
          else Inr (insert s decl_strs, local_syms)))"

definition get_func_decl_strs ::
  "(sig \<rightharpoonup> decl_str option) \<Rightarrow> global_dict \<Rightarrow> sig list \<Rightarrow> string \<Rightarrow> string set res" where
  "get_func_decl_strs ds gd signatures macro =
     res_map fst (res_fold (decl_step ds gd macro) signatures ({}, {}))"

definition export_jump :: "(sig set \<Rightarrow> sig list) \<Rightarrow> analysis \<Rightarrow> string list res" where
  "export_jump order a =
     (let c = a_class a; strs = get_func_decl_strs (a_decls a) (a_globals a)
      in res_bind (strs (order (callback c)) ''EXPORT_CALLBACK'') (\<lambda>s1.
         res_bind (strs (order (interface c)) ''EXPORT_PLUGSCHED'') (\<lambda>s2.
         res_bind (strs (order (fc_sidecar c)) ''EXPORT_PLUGSCHED'') (\<lambda>s3.
           Inr (sorted_list_of_set (s1 \<union> s2 \<union> s3))))))"

definition sympos_or :: "(sig \<rightharpoonup> nat) \<Rightarrow> sig \<Rightarrow> nat" where
  "sympos_or sp sg = (case sp sg of None \<Rightarrow> 0 | Some n \<Rightarrow> n)"

definition undefined_entries :: "(sig set \<Rightarrow> sig list) \<Rightarrow> analysis \<Rightarrow> string list" where
  "undefined_entries order a =
     map (\<lambda>f. [DQUOTE] @ fst f @ [DQUOTE] @ '', '' @ str_nat (sympos_or (a_sympos a) f)) (order (und (a_class a)))"

definition undefined_functions :: "(sig set \<Rightarrow> sig list) \<Rightarrow> analysis \<Rightarrow> string" where
  "undefined_functions order a = ''{'' @ join (''},'' @ [NL] @ ''{'') (undefined_entries order a) @ ''}''"

definition tainted_line :: "(sig \<rightharpoonup> nat) \<Rightarrow> sig \<Rightarrow> string" where
  "tainted_line sp f =
     (let n = sympos_or sp f
      in ''TAINTED_FUNCTION('' @ fst f @ '','' @ str_nat (if n = 0 then 1 else n) @ '')'' @ [NL])"

definition tainted_functions :: "(sig set \<Rightarrow> sig list) \<Rightarrow> analysis \<Rightarrow> string list" where
  "tainted_functions order a = map (tainted_line (a_sympos a)) (order (tainted (a_class a)))"

subsection \<open>Runs of the analysis\<close>

definition resolved_callbacks :: "config \<Rightarrow> global_dict \<Rightarrow> 'e meta \<Rightarrow> sig set" where
  "resolved_callbacks cfg gd m =
     {s. snd s \<in> set (mod_files cfg) \<and> (\<exists>cb \<in> set (m_callback m). lookup_if_global gd cb = Some s)}"

lemma resolve_callbacks_eq:
  "resolve_callbacks cfg gd m c = c\<lparr>callback := callback c \<union> resolved_callbacks cfg gd m\<rparr>"
proof -
  have "fold (\<lambda>cb S. case lookup_if_global gd cb of None \<Rightarrow> S
         | Some cb \<Rightarrow> if snd cb \<in> set (mod_files cfg) then insert cb S else S) cbs A =
      A \<union> {s. snd s \<in> set (mod_files cfg) \<and> (\<exists>cb \<in> set cbs. lookup_if_global gd cb = Some s)}" for cbs A
    by (induction cbs arbitrary: A) (auto split: option.splits)
  then show ?thesis by (simp add: resolve_callbacks_def resolved_callbacks_def)
qed

lemma resolve_all_callbacks:
  "fold (\<lambda>(_, m). resolve_callbacks cfg gd m) raw c =
     c\<lparr>callback := callback c \<union> (\<Union>(name, m) \<in> set raw. resolved_callbacks cfg gd m)\<rparr>"
  by (induction raw arbitrary: c) (auto simp: resolve_callbacks_eq Un_assoc)

lemma finite_resolved_callbacks [simp]: "finite (resolved_callbacks cfg gd m)"
proof -
  have "resolved_callbacks cfg gd m \<subseteq> (\<lambda>cb. the (lookup_if_global gd cb)) ` set (m_callback m)"
    by (force simp: resolved_callbacks_def)
  then show ?thesis by (rule finite_subset) simp
qed

lemma set_meta_calls:
  "(f, t) \<in> set (meta_calls m) \<longleftrightarrow> (\<exists>e \<in> set (m_edge m). e_from e = f \<and> e_to e = Some t)"
  by (force simp: meta_calls_def map_filter_def)

text \<open>The class record that the classification starts from.\<close>

definition start_class :: "config \<Rightarrow> raw_metas \<Rightarrow> linkage \<Rightarrow> vm_state \<Rightarrow> func_class" where
  "start_class cfg raw l vm = (class_of cfg (all_fns (map snd raw)) (all_interfaces (map snd raw)))
     \<lparr>fake_global := overridden (all_fns (map snd raw)),
      callback := (\<Union>(name, m) \<in> set raw. resolved_callbacks cfg (global_fn_dict l) m),
      in_vmlinux := vm_in_vmlinux vm, mangled := vm_mangled vm, export := vm_export vm\<rparr>"

lemma class_of_sel [simp]:
  "fn (class_of cfg fs is) = fn_signature ` set fs"
  "interface (class_of cfg fs is) = is"
  "callback (class_of cfg fs is) = {}"
  by (simp_all add: class_of_def empty_func_class_def)

lemma analyze_run:
  assumes "analyze order depth cfg raw elf = Inr a"
  obtains l vm where
    "map_of (global_fn_dict l) = linked_file (all_fns (map snd raw))"
    "a_globals a = global_fn_dict l"
    "find_in_vmlinux cfg (fn_signature ` set (all_fns (map snd raw))) elf = Inr vm"
    "a_sympos a = local_sympos vm"
    "a_metas a = map (\<lambda>(name, m). (name, resolve_meta (a_globals a) m)) raw"
    "a_edges a = concat (map (\<lambda>(_, m). meta_calls m) (a_metas a))"
    "func_class_arithmetics depth cfg (a_metas a) (a_edges a) (start_class cfg raw l vm) = Inr (a_class a)"
    "sanity_checks order depth (a_metas a) (a_class a) = Inr ()"
    "a_decls a = decls_of cfg (all_fns (map snd raw))"
    "a_function a = function_section cfg (a_class a)"
    "a_structs a = struct_properties (public_user (a_class a)) (a_metas a)"
proof -
  from first_pass_inv [of cfg "map snd raw"] obtain p1 where p1: "first_pass cfg (map snd raw) = Inr p1"
    "pass1_inv cfg (all_fns (map snd raw)) (all_interfaces (map snd raw)) p1" by blast
  from p1(2) have "globals_inv (all_fns (map snd raw)) (p1_globals p1)" by (simp add: pass1_inv_def)
  from globals_inv_link [OF this] obtain l where l: "link_globals (p1_globals p1) = Inr l"
    "map_of (global_fn_dict l) = linked_file (all_fns (map snd raw))" "fake l = overridden (all_fns (map snd raw))"
    by blast
  from assms p1 l show ?thesis
    by (auto simp: analyze_def second_pass_def Let_def res_elims pass1_inv_def resolve_all_callbacks
        start_class_def intro!: that [of l])
qed

lemma finite_border:
  assumes "func_class_arithmetics depth cfg ms es (start_class cfg raw l vm) = Inr c"
  shows "finite (border c)" "finite (fc_sidecar c)" "finite (callback c)" "finite (interface c)"
proof -
  show "finite (interface c)"
    using arithmetics_fields(5) [OF assms] by (simp add: start_class_def all_interfaces_def)
  moreover show "finite (callback c)"
  proof (rule finite_subset)
    show "callback c \<subseteq> (\<Union>(name, m) \<in> set raw. resolved_callbacks cfg (global_fn_dict l) m)"
      using arithmetics_fields(10) [OF assms] by (auto simp: start_class_def)
  qed (auto split: prod.split)
  ultimately show "finite (border c)" using arithmetics_fields(12) [OF assms] by simp
  show "finite (fc_sidecar c)" using arithmetics_fields(14) [OF assms] by simp
qed

lemma sanity_check_ok:
  "sanity_check depth ms c sg = Inr () \<Longrightarrow>
     \<exists>m. metas_by_name ms (boundary_name sg) = Inr m \<and> \<not> unsafe_redirect c (m_edge m) sg"
  by (auto simp: sanity_check_def res_elims dest: check_redirect_iff)

lemma sanity_checks_ok:
  assumes "iterates order" "finite ((fc_sidecar c \<union> border c) \<inter> mangled c)"
    and "sanity_checks order depth ms c = Inr ()" "sg \<in> (fc_sidecar c \<union> border c) \<inter> mangled c"
  shows "\<exists>m. metas_by_name ms (boundary_name sg) = Inr m \<and> \<not> unsafe_redirect c (m_edge m) sg"
  using assms by (intro sanity_check_ok [of depth]) (simp add: sanity_checks_def res_fold_unit iterates_set)

subsection \<open>Declaration strings\<close>

definition is_local_sym :: "global_dict \<Rightarrow> sig \<Rightarrow> bool" where
  "is_local_sym gd sg \<longleftrightarrow> map_of gd (fst sg) \<noteq> Some (snd sg)"

lemma decl_of_Inr: "decl_of ds sg = Inr d \<longleftrightarrow> ds sg = Some (Some d)"
  by (auto simp: decl_of_def split: option.splits)

lemma decl_step_Inr:
  "decl_step ds gd macro sg (D, L) = Inr (D', L') \<longleftrightarrow>
     (\<exists>d. ds sg = Some (Some d) \<and> D' = insert (format_decl macro d) D \<and>
        (if is_local_sym gd sg then fst sg \<notin> L \<and> L' = insert (fst sg) L else L' = L))"
  by (auto simp: decl_step_def Let_def res_elims decl_of_Inr is_local_sym_def)

definition decl_images :: "(sig \<rightharpoonup> decl_str option) \<Rightarrow> string \<Rightarrow> sig set \<Rightarrow> string set" where
  "decl_images ds macro S = {format_decl macro d | sg d. sg \<in> S \<and> ds sg = Some (Some d)}"

lemma decl_images_simps [simp]:
  "decl_images ds macro {} = {}"
  "ds sg = Some (Some d) \<Longrightarrow> decl_images ds macro (insert sg S) = insert (format_decl macro d) (decl_images ds macro S)"
  by (cases sg; auto simp: decl_images_def)+

lemma decl_fold_Inr:
  "res_fold (decl_step ds gd macro) sgs (D, L) = Inr (D', L') \<longleftrightarrow>
     (\<forall>sg \<in> set sgs. \<exists>d. ds sg = Some (Some d)) \<and>
     distinct (map fst (filter (is_local_sym gd) sgs)) \<and>
     set (map fst (filter (is_local_sym gd) sgs)) \<inter> L = {} \<and>
     D' = D \<union> decl_images ds macro (set sgs) \<and>
     L' = L \<union> set (map fst (filter (is_local_sym gd) sgs))"
proof (induction sgs arbitrary: D L)
  case Nil
  show ?case by auto
next
  case (Cons sg sgs)
  have "res_fold (decl_step ds gd macro) (sg # sgs) (D, L) = Inr (D', L') \<longleftrightarrow>
      (\<exists>D1 L1. decl_step ds gd macro sg (D, L) = Inr (D1, L1) \<and>
         res_fold (decl_step ds gd macro) sgs (D1, L1) = Inr (D', L'))"
    by (cases "decl_step ds gd macro sg (D, L)") (auto split: prod.splits)
  also have "\<dots> \<longleftrightarrow> (\<exists>d. ds sg = Some (Some d) \<and>
      (if is_local_sym gd sg
       then fst sg \<notin> L \<and> res_fold (decl_step ds gd macro) sgs (insert (format_decl macro d) D, insert (fst sg) L) = Inr (D', L')
       else res_fold (decl_step ds gd macro) sgs (insert (format_decl macro d) D, L) = Inr (D', L')))"
    by (cases "is_local_sym gd sg") (auto simp: decl_step_Inr)
  also have "\<dots> \<longleftrightarrow> (\<forall>s \<in> set (sg # sgs). \<exists>d. ds s = Some (Some d)) \<and>
     distinct (map fst (filter (is_local_sym gd) (sg # sgs))) \<and>
     set (map fst (filter (is_local_sym gd) (sg # sgs))) \<inter> L = {} \<and>
     D' = D \<union> decl_images ds macro (set (sg # sgs)) \<and>
     L' = L \<union> set (map fst (filter (is_local_sym gd) (sg # sgs)))"
  proof (cases "\<exists>d. ds sg = Some (Some d)")
    case True
    then obtain d where "ds sg = Some (Some d)" by blast
    then show ?thesis by (auto simp: Cons.IH)
  qed auto
  finally show ?case .
qed

lemma get_func_decl_strs_Inr:
  assumes "distinct sgs"
  shows "get_func_decl_strs ds gd sgs macro = Inr S \<longleftrightarrow>
     (\<forall>sg \<in> set sgs. \<exists>d. ds sg = Some (Some d)) \<and>
     inj_on fst {sg \<in> set sgs. is_local_sym gd sg} \<and> S = decl_images ds macro (set sgs)"
proof -
  have "distinct (map fst (filter (is_local_sym gd) sgs)) \<longleftrightarrow> inj_on fst {sg \<in> set sgs. is_local_sym gd sg}"
    using assms by (simp add: distinct_map)
  then show ?thesis
    by (auto simp: get_func_decl_strs_def res_map_Inr_iff decl_fold_Inr)
qed

subsection \<open>Struct fields\<close>

lemma add_field_users_sel:
  "sp_all_fields (fold (add_field_users pub) fus p) = sp_all_fields p"
  "sp_public_users (fold (add_field_users pub) fus p) = sp_public_users p \<union> (\<Union>(f, us) \<in> set fus. set us \<inter> pub)"
  "sp_public_fields (fold (add_field_users pub) fus p) = sp_public_fields p \<union> {f. \<exists>us. (f, us) \<in> set fus \<and> set us \<inter> pub \<noteq> {}}"
  by (induction fus arbitrary: p) (auto simp: add_field_users_def Let_def split: if_splits)

definition struct_uses :: "metas \<Rightarrow> string \<Rightarrow> (string \<times> sig) set" where
  "struct_uses ms struct = {(f, u). \<exists>name m sm us. (name, m) \<in> set ms \<and> map_of (m_struct m) struct = Some sm \<and>
     (f, us) \<in> set (public_fields sm) \<and> u \<in> set us}"

lemma add_struct_meta_sel:
  "sp_public_users (add_struct_meta pub struct m p) = sp_public_users p \<union> snd ` {x \<in> struct_uses [(n, m)] struct. snd x \<in> pub}"
  "sp_public_fields (add_struct_meta pub struct m p) = sp_public_fields p \<union> fst ` {x \<in> struct_uses [(n, m)] struct. snd x \<in> pub}"
  by (auto simp: add_struct_meta_def struct_uses_def add_field_users_sel image_iff split: option.splits) blast+

lemma struct_uses_Cons: "struct_uses ((n, m) # ms) struct = struct_uses [(n, m)] struct \<union> struct_uses ms struct"
  by (auto simp: struct_uses_def)

lemma struct_uses_Nil [simp]: "struct_uses [] struct = {}"
  by (simp add: struct_uses_def)

lemma struct_fold_sel:
  "sp_public_users (fold (\<lambda>(_, m). add_struct_meta pub struct m) ms p) =
     sp_public_users p \<union> snd ` {x \<in> struct_uses ms struct. snd x \<in> pub}"
  "sp_public_fields (fold (\<lambda>(_, m). add_struct_meta pub struct m) ms p) =
     sp_public_fields p \<union> fst ` {x \<in> struct_uses ms struct. snd x \<in> pub}"
proof (induction ms arbitrary: p)
  case (Cons nm ms)
  obtain n m where [simp]: "nm = (n, m)" by fastforce
  { case 1
    show ?case by (simp add: Cons.IH add_struct_meta_sel(1) [where n = n] struct_uses_Cons [of n m ms] Collect_disj_eq conj_disj_distribR image_Un Un_assoc)
  next
    case 2
    show ?case by (simp add: Cons.IH add_struct_meta_sel(2) [where n = n] struct_uses_Cons [of n m ms] Collect_disj_eq conj_disj_distribR image_Un Un_assoc)
  }
qed simp_all

subsection \<open>Calls and callbacks of a run\<close>

lemma analyze_arith:
  assumes "analyze order depth cfg raw elf = Inr a"
  obtains i where "arithmetics_of i = Inr (a_class a)"
    "\<And>f t. arith_calls i f t \<longleftrightarrow> (f, t) \<in> set (a_edges a)"
proof -
  from analyze_run [OF assms] obtain l vm where
    "func_class_arithmetics depth cfg (a_metas a) (a_edges a) (start_class cfg raw l vm) = Inr (a_class a)"
    by metis
  then show ?thesis
    by (intro that [of "(depth, cfg, a_metas a, a_edges a, start_class cfg raw l vm)"])
      (simp_all add: arithmetics_of_def arith_calls_def)
qed

lemma resolved_edge:
  assumes "analyze order depth cfg raw elf = Inr a" "(name, m) \<in> set raw" "e \<in> set (m_edge m)"
    and "lookup_if_global (a_globals a) (re_to e) = Some t"
  shows "(re_from e, t) \<in> set (a_edges a)"
proof -
  from analyze_run [OF assms(1)] obtain l vm where
    ms: "a_metas a = map (\<lambda>(name, m). (name, resolve_meta (a_globals a) m)) raw"
    and es: "a_edges a = concat (map (\<lambda>(_, m). meta_calls m) (a_metas a))"
    by metis
  have "(re_from e, t) \<in> set (meta_calls (resolve_meta (a_globals a) m))"
    using assms(3,4) by (auto simp: set_meta_calls resolve_meta_def resolve_edge_def)
  with assms(2) show ?thesis unfolding es ms by force
qed

lemma insider_caller:
  assumes "analyze order depth cfg raw elf = Inr a" "(name, m) \<in> set raw" "e \<in> set (m_edge m)"
    and "lookup_if_global (a_globals a) (re_to e) = Some t" "t \<in> insider (a_class a)"
  shows "re_from e \<in> insider (a_class a) \<union> border (a_class a) \<union> init (a_class a)
    \<union> fc_sidecar (a_class a) \<union> fake_global (a_class a)"
proof -
  from analyze_arith [OF assms(1)] obtain i where i: "arithmetics_of i = Inr (a_class a)"
    "\<And>f t. arith_calls i f t \<longleftrightarrow> (f, t) \<in> set (a_edges a)" by blast
  from resolved_edge [OF assms(1-4)] show ?thesis
    by (intro arith.insider_callers [OF i(1) _ assms(5)]) (simp add: i(2))
qed

lemma callback_is_border:
  assumes "analyze order depth cfg raw elf = Inr a" "(name, m) \<in> set raw" "cb \<in> set (m_callback m)"
    and "lookup_if_global (a_globals a) cb = Some t" "snd t \<in> set (mod_files cfg)" "t \<in> in_vmlinux (a_class a)"
  shows "t \<in> border (a_class a)"
proof -
  from analyze_run [OF assms(1)] obtain l vm where
    run: "func_class_arithmetics depth cfg (a_metas a) (a_edges a) (start_class cfg raw l vm) = Inr (a_class a)"
    and g: "a_globals a = global_fn_dict l" by metis
  have "t \<in> callback (start_class cfg raw l vm)"
    using assms(2-5) by (auto simp: start_class_def resolved_callbacks_def g)
  with assms(6) arithmetics_fields(5,7,10,12) [OF run] show ?thesis by blast
qed

subsection \<open>What the analysis relies on\<close>

text \<open>
  The contract of the metadata files: the signature of a function is its name and its file,
  and an interface is one of the functions of its unit, with a declaration string.
\<close>

locale metadata_source =
  fixes metadata :: "'u \<Rightarrow> raw_edge meta option res"
  assumes signature_of_fn: "metadata u = Inr (Some m) \<Longrightarrow> f \<in> set (m_fn m) \<Longrightarrow> fn_signature f = (fn_name f, fn_file f)"
    and interface_declared: "metadata u = Inr (Some m) \<Longrightarrow> s \<in> set (m_interface m) \<Longrightarrow>
      \<exists>f \<in> set (m_fn m). fn_signature f = s \<and> fn_decl_str f \<noteq> None"
begin

lemma classes_by_file:
  assumes run: "analyze order depth cfg raw elf = Inr a"
    and raw: "\<And>name m. (name, m) \<in> set raw \<Longrightarrow> \<exists>u. metadata u = Inr (Some m)"
  shows "mod_fns (a_class a) = {s \<in> fn (a_class a). snd s \<in> set (mod_files cfg)}"
    "sdcr_fns (a_class a) = {s \<in> fn (a_class a). snd s \<in> set (sdcr_srcs cfg)}"
    "interface (a_class a) \<subseteq> fn (a_class a)"
proof -
  let ?fs = "all_fns (map snd raw)"
  from analyze_run [OF run] obtain l vm where
    "func_class_arithmetics depth cfg (a_metas a) (a_edges a) (start_class cfg raw l vm) = Inr (a_class a)" by metis
  note fields = arithmetics_fields [OF this]
  have known: "fn (a_class a) = fn_signature ` set ?fs" by (simp add: fields(1) start_class_def)
  have "snd (fn_signature f) = fn_file f" if "f \<in> set ?fs" for f
  proof -
    from that obtain name m where "(name, m) \<in> set raw" "f \<in> set (m_fn m)" by (auto simp: all_fns_def)
    with raw signature_of_fn show ?thesis by fastforce
  qed
  then show "mod_fns (a_class a) = {s \<in> fn (a_class a). snd s \<in> set (mod_files cfg)}"
    "sdcr_fns (a_class a) = {s \<in> fn (a_class a). snd s \<in> set (sdcr_srcs cfg)}"
    by (auto simp: known fields(3,4) start_class_def class_of_def)
  show "interface (a_class a) \<subseteq> fn (a_class a)"
  proof
    fix s assume "s \<in> interface (a_class a)"
    then have "s \<in> all_interfaces (map snd raw)" by (simp add: fields(5) start_class_def)
    then obtain name m where m: "(name, m) \<in> set raw" "s \<in> set (m_interface m)" by (auto simp: all_interfaces_def)
    from raw [OF m(1)] obtain u where "metadata u = Inr (Some m)" by blast
    from interface_declared [OF this m(2)] obtain f where "f \<in> set (m_fn m)" "fn_signature f = s" by blast
    with m(1) show "s \<in> fn (a_class a)" by (force simp: known all_fns_def)
  qed
qed

end

lemma struct_properties_sel:
  assumes "struct_properties pub ms struct = Some p"
  shows "sp_public_fields p = {f. \<exists>u \<in> pub. (f, u) \<in> struct_uses ms struct}"
    "sp_public_users p = {u \<in> pub. \<exists>f. (f, u) \<in> struct_uses ms struct}"
proof -
  from assms have p: "p = struct_property pub ms struct" by (simp add: struct_properties_def split: if_splits)
  show "sp_public_fields p = {f. \<exists>u \<in> pub. (f, u) \<in> struct_uses ms struct}"
    "sp_public_users p = {u \<in> pub. \<exists>f. (f, u) \<in> struct_uses ms struct}"
    unfolding p by (force simp: struct_property_def struct_fold_sel)+
qed

lemma outside_use_reported:
  assumes run: "analyze order depth cfg raw elf = Inr a" and m: "(name, m) \<in> set raw"
    and sm: "map_of (m_struct m) struct = Some sm" "map_of (public_fields sm) f = Some us"
    and u: "u \<in> set us" "u \<in> public_user (a_class a)"
  shows "\<exists>p. a_structs a struct = Some p \<and> f \<in> sp_public_fields p \<and> u \<in> sp_public_users p"
proof -
  from analyze_run [OF run] have ms: "a_metas a = map (\<lambda>(name, m). (name, resolve_meta (a_globals a) m)) raw"
    and structs: "a_structs a = struct_properties (public_user (a_class a)) (a_metas a)" by metis+
  have m': "(name, resolve_meta (a_globals a) m) \<in> set (a_metas a)" unfolding ms using m by force
  have entry: "map_of (m_struct (resolve_meta (a_globals a) m)) struct = Some sm" by (simp add: resolve_meta_def sm(1))
  from map_of_SomeD [OF this] have "struct \<in> fst ` set (m_struct (resolve_meta (a_globals a) m))" by force
  with m' have "list_ex (\<lambda>(_, m). struct \<in> fst ` set (m_struct m)) (a_metas a)"
    unfolding list_ex_iff by (intro bexI [of _ "(name, resolve_meta (a_globals a) m)"]) simp_all
  then obtain p where p: "struct_properties (public_user (a_class a)) (a_metas a) struct = Some p"
    by (simp add: struct_properties_def)
  have "(f, u) \<in> struct_uses (a_metas a) struct"
    unfolding struct_uses_def using m' entry map_of_SomeD [OF sm(2)] u(1) by blast
  with struct_properties_sel [OF p] u(2) p structs show ?thesis by auto
qed

subsection \<open>Properties\<close>

text \<open>A header of jump declarations has exactly one line per function, in whatever order
  the set is iterated; it is refused if a function has no declaration string, or if two
  functions that are no global symbols share a name.\<close>

theorem func_decl_strs_spec:
  assumes "distinct sgs"
  shows "get_func_decl_strs ds gd sgs macro = Inr S \<longleftrightarrow>
    (\<forall>sg \<in> set sgs. \<exists>d. ds sg = Some (Some d)) \<and>
    inj_on fst {sg \<in> set sgs. map_of gd (fst sg) \<noteq> Some (snd sg)} \<and>
    S = {format_decl macro d | sg d. sg \<in> set sgs \<and> ds sg = Some (Some d)}"
  unfolding get_func_decl_strs_Inr [OF assms] is_local_sym_def decl_images_def ..

theorem func_decl_strs_spec_witness:
  "get_func_decl_strs [(''f'', ''a.c'') \<mapsto> Some \<lparr>ds_fn = ''f'', ds_ret = ''int'', ds_params = ''void''\<rparr>] []
     [(''f'', ''a.c'')] ''EXPORT_CALLBACK'' = Inr {''EXPORT_CALLBACK(f, int, void)'' @ [NL]}"
  by (subst func_decl_strs_spec) (auto simp: format_decl_def)

end
