(* ===== verification/Extract.thy ===== *)
theory Extract
  imports Lines Analyze
begin

text \<open>
  \<open>boundary/extract.py\<close>: the extraction of one source file. The functions and variables
  of the file are sorted into lists by the classes that the analysis wrote
  (\<open>function_location\<close>, \<open>var_location\<close>); \<open>function_extract\<close>, \<open>var_extract\<close> and
  \<open>fix_up\<close> then rewrite the list of lines. The program reports a line beyond the end of
  the file as an \<open>IndexError\<close> and a class missing from the configuration as a
  \<open>KeyError\<close>; a target that is already open stays empty then (theory \<open>Files\<close>).
\<close>

subsection \<open>The configuration of the extraction\<close>

text \<open>\<open>boundary_extract.yaml\<close>: the boundary configuration with the function section of the analysis.\<close>

record ex_config =
  x_cfg :: config
  x_function :: "string \<rightharpoonup> section_value"

text \<open>\<open>obj in self.config['function'][k]\<close>; a signature is no member of a set of names.\<close>

definition in_section :: "ex_config \<Rightarrow> string \<Rightarrow> sig \<Rightarrow> bool res" where
  "in_section x k sg =
     (case x_function x k of
        None \<Rightarrow> Inl (KeyError k)
      | Some (Sigs s) \<Rightarrow> Inr (sg \<in> s)
      | Some (Names n) \<Rightarrow> Inr False)"

text \<open>\<open>mod_files - mod_srcs\<close>\<close>

definition ex_mod_hdrs :: "config \<Rightarrow> string list" where
  "ex_mod_hdrs cfg = filter (\<lambda>f. f \<notin> set (mod_srcs cfg)) (mod_files cfg)"

definition dst_file :: "config \<Rightarrow> string \<Rightarrow> string \<Rightarrow> string" where
  "dst_file cfg mod_dir src =
     (if src \<in> set (sdcr_srcs cfg) then mod_dir @ src else mod_dir @ basename src)"

definition meta_file :: "config \<Rightarrow> string \<Rightarrow> string \<Rightarrow> string" where
  "meta_file cfg tmp_dir src =
     (if src \<in> set (ex_mod_hdrs cfg) then tmp_dir @ ''header_symbol.json'' else src @ ''.boundary'')"

subsection \<open>Locating functions\<close>

record fn_lists =
  unique :: "sig set"
  fn_list :: "fn_meta list"
  callback_list :: "fn_meta list"
  interface_list :: "fn_meta list"
  sidecar_list :: "fn_meta list"

definition empty_fn_lists :: fn_lists where
  "empty_fn_lists = \<lparr>unique = {}, fn_list = [], callback_list = [], interface_list = [], sidecar_list = []\<rparr>"

definition locate_fn :: "ex_config \<Rightarrow> string \<Rightarrow> fn_meta \<Rightarrow> fn_lists \<Rightarrow> fn_lists res" where
  "locate_fn x src f s =
     (if fn_file f \<noteq> src then Inr s
      else if fn_signature f \<in> unique s then Inr s
      else
        let obj = fn_signature f; s = s\<lparr>unique := insert obj (unique s)\<rparr>
        in res_bind (in_section x ''init'' obj) (\<lambda>is_init.
             if is_init then Inr s
             else res_bind (in_section x ''sched_outsider'' obj) (\<lambda>is_out.
               res_bind (if is_out then Inr True else in_section x ''sdcr_out'' obj) (\<lambda>is_out.
                 if is_out then Inr (s\<lparr>fn_list := fn_list s @ [f]\<rparr>)
                 else res_bind (in_section x ''callback'' obj) (\<lambda>is_cb.
                   if is_cb then Inr (s\<lparr>callback_list := callback_list s @ [f]\<rparr>)
                   else res_bind (in_section x ''interface'' obj) (\<lambda>is_if.
                     if is_if then Inr (s\<lparr>interface_list := interface_list s @ [f]\<rparr>)
                     else if obj \<in> set (sidecar (x_cfg x)) then Inr (s\<lparr>sidecar_list := sidecar_list s @ [f]\<rparr>)
                     else Inr s))))))"

definition function_location :: "ex_config \<Rightarrow> string \<Rightarrow> fn_meta list \<Rightarrow> fn_lists res" where
  "function_location x src fs = res_fold (locate_fn x src) fs empty_fn_lists"

subsection \<open>Locating variables\<close>

record var_lists =
  static_var_list :: "var_meta list"
  shared_var_list :: "var_meta list"

definition locate_var :: "config \<Rightarrow> var_meta \<Rightarrow> var_lists \<Rightarrow> var_lists" where
  "locate_var cfg v s =
     (if \<not> (var_public v \<or> var_name v \<in> set (extra_public cfg))
      then s\<lparr>static_var_list := static_var_list s @ [v]\<rparr>
      else if var_name v \<notin> set (force_private cfg)
      then s\<lparr>shared_var_list := shared_var_list s @ [v]\<rparr>
      else s)"

definition var_location :: "ex_config \<Rightarrow> string \<Rightarrow> var_meta list \<Rightarrow> var_lists" where
  "var_location x src vs =
     (let meta_var = filter (\<lambda>v. \<not> (var_file v \<noteq> src \<or> var_external v)) vs
      in if src \<in> set (sdcr_srcs (x_cfg x))
         then \<lparr>static_var_list = [], shared_var_list = meta_var\<rparr>
         else fold (locate_var (x_cfg x)) meta_var \<lparr>static_var_list = [], shared_var_list = []\<rparr>)"

subsection \<open>Functions\<close>

definition APOS :: string where "APOS = [CHR 0x27]"

definition warn :: "string \<Rightarrow> string" where
  "warn name = ''/* DON'' @ APOS @ ''T MODIFY INLINE EXTERNAL FUNCTION '' @ name @ '' */'' @ [NL]"

definition cb_warn :: "string \<Rightarrow> string" where
  "cb_warn name = ''/* DON'' @ APOS @ ''T MODIFY SIGNATURE OF CALLBACK FUNCTION '' @ name @ '' */'' @ [NL]"

definition if_warn :: "string \<Rightarrow> string" where
  "if_warn name = ''/* DON'' @ APOS @ ''T MODIFY SIGNATURE OF INTERFACE FUNCTION '' @ name @ '' */'' @ [NL]"

definition decl_fmt :: "decl_str \<Rightarrow> string" where
  "decl_fmt d = ''extern '' @ ds_ret d @ '' '' @ ds_fn d @ ''('' @ ds_params d @ '');'' @ [NL]"

text \<open>\<open>lines[i] = g(lines[i])\<close>\<close>

definition edit_line :: "nat \<Rightarrow> (string \<Rightarrow> string) \<Rightarrow> lines \<Rightarrow> lines res" where
  "edit_line i g ls = res_bind (list_get ls i) (\<lambda>line. Inr (ls[i := g line]))"

text \<open>\<open>for i in range(a, b): lines[i] = ''\<close>\<close>

definition blank_rows :: "nat \<Rightarrow> nat \<Rightarrow> lines \<Rightarrow> lines res" where
  "blank_rows a b = res_fold (\<lambda>i ls. list_set ls i '''') [a..<b]"

definition extract_outsider :: "ex_config \<Rightarrow> fn_meta \<Rightarrow> lines \<Rightarrow> lines res" where
  "extract_outsider x f ls =
     (let row_end = fst (r_brace_loc f); (row_start, col_start) = l_brace_loc f
      in res_bind (in_section x ''outsider_opt'' (fn_signature f)) (\<lambda>opt.
           if opt then edit_line row_end (\<lambda>l. l @ warn (fn_name f)) ls
           else res_bind (edit_line row_start (\<lambda>l. take col_start l @ '';'' @ [NL]) ls) (\<lambda>ls.
             res_bind (merge_up_lines ls row_start) (\<lambda>(ls, _).
               blank_rows (row_start + 1) (row_end + 1) ls))))"

definition extract_callback :: "fn_meta \<Rightarrow> lines \<Rightarrow> lines res" where
  "extract_callback f ls =
     (let name = fn_name f; row_start = fst (fn_name_loc f); row_end = fst (r_brace_loc f);
          new_name = ''__cb_'' @ name; used_name = ''__used '' @ new_name
      in res_bind (edit_line row_start (replace name used_name) ls) (\<lambda>ls.
           res_bind (list_get ls row_end) (\<lambda>line.
             case fn_decl_str f of
               None \<Rightarrow> Inl TypeError
             | Some d \<Rightarrow> Inr (ls[row_end := line @ [NL] @ cb_warn new_name @ decl_fmt d]))))"

definition extract_interface :: "config \<Rightarrow> fn_meta \<Rightarrow> lines \<Rightarrow> lines res" where
  "extract_interface cfg f ls =
     (let name = fn_name f; row_start = fst (fn_name_loc f); row_end = fst (r_brace_loc f);
          used_name = ''__used '' @ name
      in if list_ex (starts_with name) (interface_prefix cfg) then Inr ls
         else res_bind (if fn_public f then Inr ls else edit_line row_start (replace name used_name) ls) (\<lambda>ls.
           edit_line row_end (\<lambda>l. l @ if_warn name) ls))"

definition function_extract :: "ex_config \<Rightarrow> fn_lists \<Rightarrow> lines \<Rightarrow> lines res" where
  "function_extract x s ls =
     res_bind (res_fold (extract_outsider x) (fn_list s) ls) (\<lambda>ls.
     res_bind (res_fold extract_callback (callback_list s) ls) (\<lambda>ls.
     res_fold (extract_interface (x_cfg x)) (interface_list s @ sidecar_list s) ls))"

subsection \<open>Variables\<close>

definition extract_static :: "var_meta \<Rightarrow> lines \<Rightarrow> lines res" where
  "extract_static v ls = edit_line (fst (var_name_loc v)) (replace ''static '' ''static __used '') ls"

definition var_replace_list :: "(string \<times> string) list" where
  "var_replace_list = [(''DEFINE_PER_CPU'', ''DECLARE_PER_CPU''), (''DEFINE_STATIC_KEY'', ''DECLARE_STATIC_KEY'')]"

text \<open>The first entry whose pattern occurs in the line; removal is \<open>list.remove\<close>, which takes out the first equal element.\<close>

definition extract_shared :: "var_meta \<Rightarrow> lines \<times> var_meta list \<Rightarrow> (lines \<times> var_meta list) res" where
  "extract_shared v = (\<lambda>(ls, shared).
     (let row_start = decl_start_line v; row_name = fst (var_name_loc v)
      in res_bind (blank_rows (row_start + 1) row_name ls) (\<lambda>ls.
         res_bind (merge_down_var ls row_start) (\<lambda>(ls, _).
         res_bind (list_get ls row_start) (\<lambda>line.
           case find (\<lambda>(p, repl). contains line p) var_replace_list of
             None \<Rightarrow> Inr (ls, shared)
           | Some (p, repl) \<Rightarrow>
               Inr (ls[row_start := replace ''static '' '''' (replace p repl line)], remove1 v shared))))))"

definition delete_definition :: "var_meta \<Rightarrow> lines \<Rightarrow> lines res" where
  "delete_definition v ls = list_set ls (decl_start_line v) ''''"

definition add_declaration :: "var_meta \<Rightarrow> lines \<Rightarrow> lines res" where
  "add_declaration v ls =
     res_bind (list_get ls (decl_start_line v)) (\<lambda>line.
       case var_decl_str v of
         None \<Rightarrow> Inl TypeError
       | Some d \<Rightarrow> Inr (ls[decl_start_line v := line @ d @ [NL]]))"

definition var_extract :: "var_lists \<Rightarrow> lines \<Rightarrow> lines res" where
  "var_extract s ls =
     res_bind (res_fold extract_static (static_var_list s) ls) (\<lambda>ls.
     res_bind (res_fold extract_shared (shared_var_list s) (ls, shared_var_list s)) (\<lambda>(ls, shared).
     res_bind (res_fold delete_definition shared ls) (\<lambda>ls.
     res_fold add_declaration shared ls)))"

subsection \<open>Fix-ups\<close>

definition fix_include :: "string \<Rightarrow> config \<Rightarrow> string \<Rightarrow> string \<Rightarrow> string \<Rightarrow> string res" where
  "fix_include cwd cfg src dst line =
     res_bind (list_get (split_on DQUOTE line) 1) (\<lambda>old_header.
     res_bind (relpath cwd (path_join (dirname src) old_header) ''.'') (\<lambda>rel_header.
       if rel_header \<in> set (mod_files cfg) then Inr line
       else res_bind (relpath cwd rel_header (dirname dst)) (\<lambda>new_header.
              Inr (replace old_header new_header line))))"

text \<open>\<open>initcall|early_param|__init |__initdata |__setup\<close>\<close>

definition delete_match :: "string \<Rightarrow> bool" where
  "delete_match line = list_ex (contains line) [''initcall'', ''early_param'', ''__init '', ''__initdata '', ''__setup'']"

text \<open>
  \<open>^(?!extern ).*struct sched_class ((stop|dl|rt|fair|idle)_sched_class)\<close>. The prefix
  \<open>.*\<close> is greedy and does not cross a newline, so the last occurrence before the first
  newline is matched, and the whole text before it is replaced.
\<close>

definition sched_classes :: "string list" where
  "sched_classes = map (\<lambda>c. c @ ''_sched_class'') [''stop'', ''dl'', ''rt'', ''fair'', ''idle'']"

definition sched_class_at :: "string \<Rightarrow> (string \<times> string) option" where
  "sched_class_at s =
     map_option (\<lambda>c. (c, drop (length (''struct sched_class '' @ c)) s))
       (find (\<lambda>c. starts_with s (''struct sched_class '' @ c)) sched_classes)"

fun last_sched_class :: "string \<Rightarrow> (string \<times> string) option" where
  "last_sched_class [] = None"
| "last_sched_class (c # cs) =
     (if c = NL then None
      else case last_sched_class cs of None \<Rightarrow> sched_class_at (c # cs) | Some r \<Rightarrow> Some r)"

definition shadow_sched_class :: "string \<Rightarrow> string" where
  "shadow_sched_class line =
     (if starts_with line ''extern '' then line
      else case last_sched_class line of
             None \<Rightarrow> line
           | Some (c, rest) \<Rightarrow> ''struct sched_class shadow_'' @ c @ rest)"

definition fix_types :: "string \<Rightarrow> string" where
  "fix_types line =
     (if contains line ''struct atomic_t'' then replace ''struct atomic_t'' ''atomic_t'' line
      else shadow_sched_class line)"

definition include_line :: "string \<Rightarrow> bool" where
  "include_line line = contains line (''#include '' @ [DQUOTE])"

definition fix_up_row :: "string \<Rightarrow> config \<Rightarrow> string \<Rightarrow> string \<Rightarrow> nat \<Rightarrow> lines \<Rightarrow> lines res" where
  "fix_up_row cwd cfg src dst i ls =
     res_bind (list_get ls i) (\<lambda>line.
       if include_line line then res_map (\<lambda>l. ls[i := l]) (fix_include cwd cfg src dst line)
       else if delete_match line
       then res_bind (if contains line ''__init '' \<and> \<not> contains line '';''
                      then res_map fst (merge_down_fn ls i) else Inr ls) (\<lambda>ls. list_set ls i '''')
       else Inr (ls[i := fix_types line]))"

definition fix_up :: "string \<Rightarrow> config \<Rightarrow> string \<Rightarrow> string \<Rightarrow> lines \<Rightarrow> lines res" where
  "fix_up cwd cfg src dst ls = res_fold (fix_up_row cwd cfg src dst) [0..<length ls] ls"

subsection \<open>The extraction of a file\<close>

definition extract_file ::
  "string \<Rightarrow> string \<Rightarrow> ex_config \<Rightarrow> string \<Rightarrow> fn_meta list \<Rightarrow> var_meta list \<Rightarrow> lines \<Rightarrow> lines res" where
  "extract_file cwd mod_dir x src fs vs ls =
     res_bind (function_location x src fs) (\<lambda>fns.
       let vars = var_location x src vs
       in res_bind (function_extract x fns ls) (\<lambda>ls.
          res_bind (var_extract vars ls) (\<lambda>ls.
            fix_up cwd (x_cfg x) src (dst_file (x_cfg x) mod_dir src) ls)))"

subsection \<open>Single edits\<close>

lemma edit_line_Inr_iff [res_elims]: "edit_line i g ls = Inr ls' \<longleftrightarrow> i < length ls \<and> ls' = ls[i := g (ls ! i)]"
  by (auto simp: edit_line_def res_elims)

lemma blank_rows_Inr:
  assumes "blank_rows a b ls = Inr ls'"
  shows "length ls' = length ls" "\<And>i. i < length ls \<Longrightarrow> ls' ! i = (if a \<le> i \<and> i < b then '''' else ls ! i)"
proof -
  from assms have "res_fold (\<lambda>i ls. list_set ls i '''') [a..<b] ls = Inr ls'" by (simp add: blank_rows_def)
  have "length ls' = length ls \<and> (\<forall>i < length ls. ls' ! i = (if i \<in> set ([] @ [a..<b]) then '''' else ls ! i))"
  proof (rule res_fold_trace_Inr [where I = "\<lambda>is t. length t = length ls \<and>
      (\<forall>i < length ls. t ! i = (if i \<in> set is then '''' else ls ! i))", OF \<open>res_fold _ _ _ = _\<close>])
    fix ys x t t'
    assume I: "length t = length ls \<and> (\<forall>i < length ls. t ! i = (if i \<in> set ys then '''' else ls ! i))"
      and "list_set t x '''' = Inr t'"
    then have t': "t' = t[x := '''']" "x < length t" by (simp_all add: list_set_Inr_iff)
    with I have "t' ! i = (if i \<in> set (ys @ [x]) then '''' else ls ! i)" if "i < length ls" for i
      using that by (cases "i = x") simp_all
    with I t' show "length t' = length ls \<and> (\<forall>i < length ls. t' ! i = (if i \<in> set (ys @ [x]) then '''' else ls ! i))"
      by simp
  qed simp
  then show "length ls' = length ls" "\<And>i. i < length ls \<Longrightarrow> ls' ! i = (if a \<le> i \<and> i < b then '''' else ls ! i)"
    by simp_all
qed

text \<open>A function body that is turned into a declaration, row by row.\<close>

lemma extract_outsider_run:
  assumes "extract_outsider x f ls = Inr ls'" "in_section x ''outsider_opt'' (fn_signature f) = Inr False"
  obtains c where "c \<le> fst (l_brace_loc f)" "fst (l_brace_loc f) < length ls" "length ls' = length ls"
    "c = 0 \<or> terminator (ls ! (c - 1))"
    "\<And>i. c \<le> i \<Longrightarrow> i < fst (l_brace_loc f) \<Longrightarrow> \<not> terminator (ls ! i)"
    "\<And>i. i < length ls \<Longrightarrow> c < i \<Longrightarrow> i \<le> fst (l_brace_loc f) \<or> i \<le> fst (r_brace_loc f) \<Longrightarrow> ls' ! i = ''''"
    "\<And>i. i < length ls \<Longrightarrow> i < c \<or> (fst (l_brace_loc f) < i \<and> fst (r_brace_loc f) < i) \<Longrightarrow> ls' ! i = ls ! i"
    "ls' ! c = replace '' ;'' '';'' (concat (map (\<lambda>i. strip (ls ! i) @ '' '') [c..<fst (l_brace_loc f)]) @
       strip (take (snd (l_brace_loc f)) (ls ! fst (l_brace_loc f)) @ '';'' @ [NL])) @ [NL]"
proof -
  define row where "row = fst (l_brace_loc f)"
  define ls1 where "ls1 = ls[row := take (snd (l_brace_loc f)) (ls ! row) @ '';'' @ [NL]]"
  from assms obtain ls2 c where run: "row < length ls" "merge_up_lines ls1 row = Inr (ls2, c)"
    "blank_rows (row + 1) (fst (r_brace_loc f) + 1) ls2 = Inr ls'"
    by (auto simp: extract_outsider_def Let_def res_elims row_def ls1_def split: prod.splits)
  have len: "length ls1 = length ls" "length ls2 = length ls"
    using merge_up_lines_length [OF run(2)] by (simp_all add: ls1_def)
  note up = merge_up_lines_spec [OF run(2)] and blank = blank_rows_Inr [OF run(3)]
  have above: "ls1 ! i = ls ! i" if "i \<noteq> row" for i using that by (simp add: ls1_def)
  have line: "ls1 ! row = take (snd (l_brace_loc f)) (ls ! row) @ '';'' @ [NL]" using run(1) by (simp add: ls1_def)
  show ?thesis
  proof (rule that [of c], unfold row_def [symmetric])
    show "c \<le> row" by (rule up(2))
    show "row < length ls" by (rule run(1))
    show "length ls' = length ls" using blank(1) len by simp
    show "c = 0 \<or> terminator (ls ! (c - 1))"
      using up(2,3) above [of "c - 1"] by (cases "c = 0") auto
    show "\<not> terminator (ls ! i)" if "c \<le> i" "i < row" for i
      using up(4) [OF that] above [of i] that by simp
    show "ls' ! i = ''''" if "i < length ls" "c < i" "i \<le> row \<or> i \<le> fst (r_brace_loc f)" for i
      using blank(2) [of i] up(5) [of i] that len by auto
    show "ls' ! i = ls ! i" if "i < length ls" "i < c \<or> (row < i \<and> fst (r_brace_loc f) < i)" for i
      using blank(2) [of i] up(2) up(5) [of i] above [of i] that len by auto
    have same: "map (\<lambda>i. strip (ls1 ! i) @ '' '') [c..<row] = map (\<lambda>i. strip (ls ! i) @ '' '') [c..<row]"
      by (rule map_cong) (simp_all add: above)
    show "ls' ! c = replace '' ;'' '';'' (concat (map (\<lambda>i. strip (ls ! i) @ '' '') [c..<row]) @
       strip (take (snd (l_brace_loc f)) (ls ! row) @ '';'' @ [NL])) @ [NL]"
      using blank(2) [of c] up(1,2,6) len unfolding same line by simp
  qed
qed

subsection \<open>Every stage is an editing of lines\<close>

definition fn_first_row :: "fn_meta \<Rightarrow> nat" where
  "fn_first_row f = min (min (fst (fn_name_loc f)) (fst (l_brace_loc f))) (fst (r_brace_loc f))"

definition fn_last_row :: "fn_meta \<Rightarrow> nat" where
  "fn_last_row f = max (max (fst (fn_name_loc f)) (fst (l_brace_loc f))) (fst (r_brace_loc f))"

lemmas fn_rows = fn_first_row_def fn_last_row_def

lemma extract_outsider_cases:
  assumes "extract_outsider x f ls = Inr ls'"
  obtains (opt) "fst (r_brace_loc f) < length ls"
      "ls' = ls[fst (r_brace_loc f) := ls ! fst (r_brace_loc f) @ warn (fn_name f)]"
  | (cut) "in_section x ''outsider_opt'' (fn_signature f) = Inr False"
proof -
  from assms obtain opt where "in_section x ''outsider_opt'' (fn_signature f) = Inr opt"
    by (auto simp: extract_outsider_def Let_def res_elims split: prod.splits)
  with assms that show ?thesis
    by (cases opt) (auto simp: extract_outsider_def Let_def res_elims split: prod.splits)
qed

interpretation outsider_edit: line_editing "extract_outsider x" "\<lambda>ls. ls" fn_first_row fn_last_row for x
proof
  fix f ls ls' assume run: "extract_outsider x f ls = Inr ls'"
  then show "length ls' = length ls"
  proof (cases rule: extract_outsider_cases)
    case cut
    with run show ?thesis by (rule extract_outsider_run)
  qed simp
  fix i
  show "ls' ! i = ls ! i" if "fn_last_row f < i" "i < length ls"
    using run
  proof (cases rule: extract_outsider_cases)
    case opt
    with that show ?thesis by (simp add: fn_rows)
  next
    case cut
    from run this show ?thesis by (rule extract_outsider_run) (use that in \<open>simp add: fn_rows\<close>)
  qed
  fix b
  show "ls' ! i = ls ! i" if "b < length ls" "b < fn_first_row f" "terminator (ls ! b)" "i \<le> b"
    using run
  proof (cases rule: extract_outsider_cases)
    case opt
    with that show ?thesis by (simp add: fn_rows)
  next
    case cut
    with run show ?thesis
    proof (rule extract_outsider_run)
      fix c
      assume "\<And>i. c \<le> i \<Longrightarrow> i < fst (l_brace_loc f) \<Longrightarrow> \<not> terminator (ls ! i)"
        and same: "\<And>i. i < length ls \<Longrightarrow> i < c \<or> (fst (l_brace_loc f) < i \<and> fst (r_brace_loc f) < i) \<Longrightarrow> ls' ! i = ls ! i"
      with that have "b < c" by (force simp: fn_rows not_le)
      with that show ?thesis by (intro same) simp_all
    qed
  qed
qed

lemma extract_callback_Inr:
  assumes "extract_callback f ls = Inr ls'"
  shows "length ls' = length ls"
    "\<And>i. i \<noteq> fst (fn_name_loc f) \<Longrightarrow> i \<noteq> fst (r_brace_loc f) \<Longrightarrow> ls' ! i = ls ! i"
  using assms by (auto simp: extract_callback_def Let_def res_elims split: option.splits)

interpretation callback_edit: line_editing extract_callback "\<lambda>ls. ls" fn_first_row fn_last_row
  by unfold_locales (auto simp: fn_rows extract_callback_Inr intro!: extract_callback_Inr(2))

lemma extract_interface_Inr:
  assumes "extract_interface cfg f ls = Inr ls'"
  shows "length ls' = length ls"
    "\<And>i. i \<noteq> fst (fn_name_loc f) \<Longrightarrow> i \<noteq> fst (r_brace_loc f) \<Longrightarrow> ls' ! i = ls ! i"
  using assms by (auto simp: extract_interface_def Let_def res_elims split: if_splits)

interpretation interface_edit: line_editing "extract_interface cfg" "\<lambda>ls. ls" fn_first_row fn_last_row for cfg
  by unfold_locales (auto simp: fn_rows extract_interface_Inr intro!: extract_interface_Inr(2))

definition static_row :: "var_meta \<Rightarrow> nat" where
  "static_row v = fst (var_name_loc v)"

interpretation static_edit: line_editing extract_static "\<lambda>ls. ls" static_row static_row
  by unfold_locales (auto simp: extract_static_def static_row_def res_elims)

interpretation delete_edit: line_editing delete_definition "\<lambda>ls. ls" decl_start_line decl_start_line
  by unfold_locales (auto simp: delete_definition_def res_elims)

interpretation declare_edit: line_editing add_declaration "\<lambda>ls. ls" decl_start_line decl_start_line
  by unfold_locales (auto simp: add_declaration_def res_elims split: option.splits)

lemma extract_shared_length:
  "extract_shared v (ls, vs) = Inr (ls', vs') \<Longrightarrow> length ls' = length ls"
  by (auto simp: extract_shared_def Let_def res_elims dest!: merge_down_var_length blank_rows_Inr(1)
      split: option.splits prod.splits)

interpretation shared_edit: line_count extract_shared fst
  by unfold_locales (auto dest: extract_shared_length)

lemma fix_up_row_length: "fix_up_row cwd cfg src dst i ls = Inr ls' \<Longrightarrow> length ls' = length ls"
  by (auto simp: fix_up_row_def res_elims dest: merge_down_fn_length split: if_splits)

interpretation fix_up_edit: line_count "fix_up_row cwd cfg src dst" "\<lambda>ls. ls" for cwd cfg src dst
  by unfold_locales (auto dest: fix_up_row_length)

lemma function_extract_length: "function_extract x s ls = Inr ls' \<Longrightarrow> length ls' = length ls"
  by (auto simp: function_extract_def res_elims
      dest!: outsider_edit.edits_length callback_edit.edits_length interface_edit.edits_length)

lemma var_extract_length: "var_extract s ls = Inr ls' \<Longrightarrow> length ls' = length ls"
  by (auto simp: var_extract_def res_elims split: prod.splits
      dest!: static_edit.edits_length shared_edit.edits_length delete_edit.edits_length declare_edit.edits_length)

lemma fix_up_length: "fix_up cwd cfg src dst ls = Inr ls' \<Longrightarrow> length ls' = length ls"
  unfolding fix_up_def by (rule fix_up_edit.edits_length)

lemma extract_file_length: "extract_file cwd md x src fs vs ls = Inr ls' \<Longrightarrow> length ls' = length ls"
  by (auto simp: extract_file_def Let_def res_elims dest!: function_extract_length var_extract_length fix_up_length)

subsection \<open>Which functions are edited\<close>

text \<open>
  The functions of a unit: those whose file is the source file, the first of each signature.
\<close>

fun first_of_sig :: "sig set \<Rightarrow> fn_meta list \<Rightarrow> fn_meta list" where
  "first_of_sig seen [] = []"
| "first_of_sig seen (f # fs) =
     (if fn_signature f \<in> seen then first_of_sig seen fs
      else f # first_of_sig (insert (fn_signature f) seen) fs)"

definition unit_fns :: "string \<Rightarrow> fn_meta list \<Rightarrow> fn_meta list" where
  "unit_fns src fs = first_of_sig {} (filter (\<lambda>f. fn_file f = src) fs)"

text \<open>The set of a class, and the lists as selections from the functions of the unit.\<close>

definition class_sigs :: "ex_config \<Rightarrow> string \<Rightarrow> sig set" where
  "class_sigs x k = (case x_function x k of Some (Sigs s) \<Rightarrow> s | _ \<Rightarrow> {})"

definition is_outsider :: "ex_config \<Rightarrow> sig \<Rightarrow> bool" where
  "is_outsider x sg \<longleftrightarrow> sg \<notin> class_sigs x ''init'' \<and>
     (sg \<in> class_sigs x ''sched_outsider'' \<or> sg \<in> class_sigs x ''sdcr_out'')"

definition is_callback :: "ex_config \<Rightarrow> sig \<Rightarrow> bool" where
  "is_callback x sg \<longleftrightarrow> sg \<notin> class_sigs x ''init'' \<and> \<not> is_outsider x sg \<and> sg \<in> class_sigs x ''callback''"

definition is_interface :: "ex_config \<Rightarrow> sig \<Rightarrow> bool" where
  "is_interface x sg \<longleftrightarrow> sg \<notin> class_sigs x ''init'' \<and> \<not> is_outsider x sg \<and> \<not> is_callback x sg \<and>
     sg \<in> class_sigs x ''interface''"

definition is_sidecar :: "ex_config \<Rightarrow> sig \<Rightarrow> bool" where
  "is_sidecar x sg \<longleftrightarrow> sg \<notin> class_sigs x ''init'' \<and> \<not> is_outsider x sg \<and> \<not> is_callback x sg \<and>
     \<not> is_interface x sg \<and> sg \<in> set (sidecar (x_cfg x))"

lemmas fn_roles = is_outsider_def is_callback_def is_interface_def is_sidecar_def

definition has_classes :: "ex_config \<Rightarrow> bool" where
  "has_classes x \<longleftrightarrow> list_all (\<lambda>k. x_function x k \<noteq> None)
     [''init'', ''sched_outsider'', ''sdcr_out'', ''callback'', ''interface'', ''outsider_opt'']"

lemma in_section_class: "x_function x k \<noteq> None \<Longrightarrow> in_section x k sg = Inr (sg \<in> class_sigs x k)"
  by (auto simp: in_section_def class_sigs_def split: section_value.splits)

definition lists_of :: "ex_config \<Rightarrow> sig set \<Rightarrow> fn_meta list \<Rightarrow> fn_lists" where
  "lists_of x seen us =
     \<lparr>unique = seen, fn_list = filter (\<lambda>f. is_outsider x (fn_signature f)) us,
      callback_list = filter (\<lambda>f. is_callback x (fn_signature f)) us,
      interface_list = filter (\<lambda>f. is_interface x (fn_signature f)) us,
      sidecar_list = filter (\<lambda>f. is_sidecar x (fn_signature f)) us\<rparr>"

lemma locate_fn_step:
  assumes "has_classes x"
  shows "locate_fn x src f (lists_of x seen us) =
    (if fn_file f = src \<and> fn_signature f \<notin> seen
     then Inr (lists_of x (insert (fn_signature f) seen) (us @ [f]))
     else Inr (lists_of x seen us))"
  using assms by (auto simp: locate_fn_def lists_of_def Let_def has_classes_def in_section_class fn_roles)

lemma locate_fns:
  assumes "has_classes x"
  shows "res_fold (locate_fn x src) fs (lists_of x seen us) =
    (let new = first_of_sig seen (filter (\<lambda>f. fn_file f = src) fs)
     in Inr (lists_of x (seen \<union> fn_signature ` set new) (us @ new)))"
  by (induction fs arbitrary: seen us) (simp_all add: locate_fn_step [OF assms] Let_def)

lemma function_location_lists:
  assumes "has_classes x"
  shows "function_location x src fs = Inr (lists_of x (fn_signature ` set (unit_fns src fs)) (unit_fns src fs))"
proof -
  have "empty_fn_lists = lists_of x {} []" by (simp add: empty_fn_lists_def lists_of_def)
  with locate_fns [OF assms, of src fs "{}" "[]"] show ?thesis
    by (simp add: function_location_def unit_fns_def Let_def)
qed

lemma first_of_sig_subset: "set (first_of_sig seen fs) \<subseteq> set fs"
  by (induction seen fs rule: first_of_sig.induct) auto

lemma first_of_sig_sigs: "fn_signature ` set (first_of_sig seen fs) = fn_signature ` set fs - seen"
  by (induction seen fs rule: first_of_sig.induct) auto

lemma first_of_sig_distinct: "distinct (map fn_signature (first_of_sig seen fs))"
proof (induction seen fs rule: first_of_sig.induct)
  case (2 seen f fs)
  show ?case
  proof (cases "fn_signature f \<in> seen")
    case True
    with 2(1) show ?thesis by simp
  next
    case False
    with 2(2) show ?thesis by (simp add: first_of_sig_sigs)
  qed
qed simp

lemma set_unit_fns: "f \<in> set (unit_fns src fs) \<Longrightarrow> f \<in> set fs \<and> fn_file f = src"
  using first_of_sig_subset by (fastforce simp: unit_fns_def)

subsection \<open>Which variables are edited\<close>

definition unit_vars :: "string \<Rightarrow> var_meta list \<Rightarrow> var_meta list" where
  "unit_vars src vs = filter (\<lambda>v. var_file v = src \<and> \<not> var_external v) vs"

definition is_private :: "config \<Rightarrow> var_meta \<Rightarrow> bool" where
  "is_private cfg v \<longleftrightarrow> \<not> var_public v \<and> var_name v \<notin> set (extra_public cfg)"

lemma locate_vars:
  "fold (locate_var cfg) vs \<lparr>static_var_list = ss, shared_var_list = hs\<rparr> =
     \<lparr>static_var_list = ss @ filter (is_private cfg) vs,
      shared_var_list = hs @ filter (\<lambda>v. \<not> is_private cfg v \<and> var_name v \<notin> set (force_private cfg)) vs\<rparr>"
  by (induction vs arbitrary: ss hs) (auto simp: locate_var_def is_private_def)

lemma var_location_lists:
  "var_location x src vs =
     (if src \<in> set (sdcr_srcs (x_cfg x)) then \<lparr>static_var_list = [], shared_var_list = unit_vars src vs\<rparr>
      else \<lparr>static_var_list = filter (is_private (x_cfg x)) (unit_vars src vs),
            shared_var_list = filter (\<lambda>v. \<not> is_private (x_cfg x) v \<and> var_name v \<notin> set (force_private (x_cfg x)))
              (unit_vars src vs)\<rparr>)"
  by (simp add: var_location_def locate_vars unit_vars_def)

subsection \<open>What the function edits leave alone\<close>

definition edited_fns :: "fn_lists \<Rightarrow> fn_meta list" where
  "edited_fns s = fn_list s @ callback_list s @ interface_list s @ sidecar_list s"

lemma function_extract_block:
  assumes run: "function_extract x s ls = Inr ls'"
    and avoid: "\<And>f. f \<in> set (edited_fns s) \<Longrightarrow> fn_last_row f < a \<or> b < fn_first_row f"
    and b: "terminator (ls ! b)" "b < length ls" "a \<le> b"
  shows "\<forall>i. a \<le> i \<longrightarrow> i \<le> b \<longrightarrow> ls' ! i = ls ! i"
proof -
  from run obtain ls1 ls2 where
    1: "res_fold (extract_outsider x) (fn_list s) ls = Inr ls1" and
    2: "res_fold extract_callback (callback_list s) ls1 = Inr ls2" and
    3: "res_fold (extract_interface (x_cfg x)) (interface_list s @ sidecar_list s) ls2 = Inr ls'"
    by (auto simp: function_extract_def res_elims)
  have s1: "\<forall>i. a \<le> i \<longrightarrow> i \<le> b \<longrightarrow> ls1 ! i = ls ! i"
    by (rule outsider_edit.edits_block [OF 1 _ b]) (simp add: avoid edited_fns_def)
  have b1: "terminator (ls1 ! b)" "b < length ls1"
    using s1 b outsider_edit.edits_length [OF 1] by simp_all
  have s2: "\<forall>i. a \<le> i \<longrightarrow> i \<le> b \<longrightarrow> ls2 ! i = ls1 ! i"
    by (rule callback_edit.edits_block [OF 2 _ b1 b(3)]) (simp add: avoid edited_fns_def)
  have b2: "terminator (ls2 ! b)" "b < length ls2"
    using s2 b b1 callback_edit.edits_length [OF 2] by simp_all
  have "\<forall>i. a \<le> i \<longrightarrow> i \<le> b \<longrightarrow> ls' ! i = ls2 ! i"
    by (rule interface_edit.edits_block [OF 3 _ b2 b(3)]) (auto simp: avoid edited_fns_def)
  with s1 s2 show ?thesis by simp
qed

subsection \<open>Declarations of shared variables\<close>

definition decl_lines :: "nat \<Rightarrow> var_meta list \<Rightarrow> string" where
  "decl_lines row vs = concat (map (\<lambda>v. the (var_decl_str v) @ [NL]) (filter (\<lambda>v. decl_start_line v = row) vs))"

lemma decl_lines_snoc [simp]:
  "decl_lines row (vs @ [v]) =
     decl_lines row vs @ (if decl_start_line v = row then the (var_decl_str v) @ [NL] else [])"
  by (simp add: decl_lines_def)

lemma delete_definitions:
  assumes "res_fold delete_definition vs ls = Inr ls'"
  shows "length ls' = length ls \<and>
    (\<forall>i < length ls. ls' ! i = (if i \<in> decl_start_line ` set vs then '''' else ls ! i))"
proof -
  have "length ls' = length ls \<and>
    (\<forall>i < length ls. ls' ! i = (if i \<in> decl_start_line ` set ([] @ vs) then '''' else ls ! i))"
  proof (rule res_fold_trace_Inr [where I = "\<lambda>(ys :: var_meta list) t. length t = length ls \<and>
      (\<forall>i < length ls. t ! i = (if i \<in> decl_start_line ` set ys then '''' else ls ! i))", OF assms])
    fix ys :: "var_meta list" and v t t'
    assume I: "length t = length ls \<and>
        (\<forall>i < length ls. t ! i = (if i \<in> decl_start_line ` set ys then '''' else ls ! i))"
      and "delete_definition v t = Inr t'"
    then have t': "t' = t[decl_start_line v := '''']" "decl_start_line v < length t"
      by (simp_all add: delete_definition_def list_set_Inr_iff)
    with I have "t' ! i = (if i \<in> decl_start_line ` set (ys @ [v]) then '''' else ls ! i)" if "i < length ls" for i
      using that by (cases "i = decl_start_line v") simp_all
    with I t' show "length t' = length ls \<and>
        (\<forall>i < length ls. t' ! i = (if i \<in> decl_start_line ` set (ys @ [v]) then '''' else ls ! i))"
      by simp
  qed simp
  then show ?thesis by simp
qed

lemma add_declarations:
  assumes "res_fold add_declaration vs ls = Inr ls'"
  shows "length ls' = length ls \<and> (\<forall>i < length ls. ls' ! i = ls ! i @ decl_lines i vs) \<and>
    (\<forall>v \<in> set vs. var_decl_str v \<noteq> None)"
proof -
  have "length ls' = length ls \<and> (\<forall>i < length ls. ls' ! i = ls ! i @ decl_lines i ([] @ vs)) \<and>
    (\<forall>v \<in> set ([] @ vs). var_decl_str v \<noteq> None)"
  proof (rule res_fold_trace_Inr [where I = "\<lambda>ys t. length t = length ls \<and>
      (\<forall>i < length ls. t ! i = ls ! i @ decl_lines i ys) \<and> (\<forall>v \<in> set ys. var_decl_str v \<noteq> None)", OF assms])
    fix ys :: "var_meta list" and v t t'
    assume I: "length t = length ls \<and> (\<forall>i < length ls. t ! i = ls ! i @ decl_lines i ys) \<and>
        (\<forall>v \<in> set ys. var_decl_str v \<noteq> None)" and "add_declaration v t = Inr t'"
    then obtain d where t': "t' = t[decl_start_line v := t ! decl_start_line v @ d @ [NL]]"
      "decl_start_line v < length t" "var_decl_str v = Some d"
      by (auto simp: add_declaration_def res_elims split: option.splits)
    with I have "t' ! i = ls ! i @ decl_lines i (ys @ [v])" if "i < length ls" for i
      using that by (cases "i = decl_start_line v") simp_all
    with I t' show "length t' = length ls \<and> (\<forall>i < length ls. t' ! i = ls ! i @ decl_lines i (ys @ [v])) \<and>
        (\<forall>v \<in> set (ys @ [v]). var_decl_str v \<noteq> None)"
      by simp
  qed (simp add: decl_lines_def)
  then show ?thesis by simp
qed

lemma shared_left:
  assumes "res_fold extract_shared vs (ls, ss) = Inr (ls', ss')"
  shows "set ss' \<subseteq> set ss"
proof -
  have "set (snd (ls', ss')) \<subseteq> set ss"
  proof (rule res_fold_invariant [OF assms])
    fix v t t' assume I: "set (snd t) \<subseteq> set ss" and "extract_shared v t = Inr t'"
    then have "snd t' = snd t \<or> snd t' = remove1 v (snd t)"
      by (cases t) (auto simp: extract_shared_def Let_def res_elims split: option.splits prod.splits)
    with I set_remove1_subset [of v "snd t"] show "set (snd t') \<subseteq> set ss" by auto
  qed simp
  then show ?thesis by simp
qed

lemma var_extract_run:
  assumes "var_extract s ls = Inr ls'"
  obtains ls1 shared where "set shared \<subseteq> set (shared_var_list s)" "length ls1 = length ls"
    "res_bind (res_fold extract_static (static_var_list s) ls)
       (\<lambda>ls. res_fold extract_shared (shared_var_list s) (ls, shared_var_list s)) = Inr (ls1, shared)"
    "\<And>i. i < length ls \<Longrightarrow> ls' ! i =
       (if i \<in> decl_start_line ` set shared then decl_lines i shared else ls1 ! i)"
proof -
  from assms obtain ls0 ls1 shared ls2 where
    run: "res_fold extract_static (static_var_list s) ls = Inr ls0"
      "res_fold extract_shared (shared_var_list s) (ls0, shared_var_list s) = Inr (ls1, shared)"
      "res_fold delete_definition shared ls1 = Inr ls2" "res_fold add_declaration shared ls2 = Inr ls'"
    by (auto simp: var_extract_def res_elims)
  have len: "length ls1 = length ls"
    using static_edit.edits_length [OF run(1)] shared_edit.edits_length [OF run(2)] by simp
  have "decl_lines i shared = []" if "i \<notin> decl_start_line ` set shared" for i
    using that by (auto simp: decl_lines_def filter_empty_conv)
  then have "ls' ! i = (if i \<in> decl_start_line ` set shared then decl_lines i shared else ls1 ! i)"
    if "i < length ls" for i
    using delete_definitions [OF run(3)] add_declarations [OF run(4)] len that by auto
  with run(1,2) len shared_left [OF run(2)] show ?thesis by (intro that [of shared ls1]) simp_all
qed

subsection \<open>Fix-ups, line by line\<close>

text \<open>
  A line that starts an \<open>__init\<close> function definition: \<open>fix_up\<close> joins the definition and
  deletes it, while a declaration, which has a semicolon, is only deleted itself. The
  definitions it deletes among the first \<open>k\<close> lines are a set of pairs of first and last
  line. They are disjoint, for a head inside a definition that is already deleted is not
  looked at again; and every head is the first line of one or inside one.
\<close>

definition init_head :: "string \<Rightarrow> bool" where
  "init_head line \<longleftrightarrow> \<not> include_line line \<and> contains line ''__init '' \<and> \<not> contains line '';''"

definition in_block :: "(nat \<times> nat) set \<Rightarrow> nat \<Rightarrow> bool" where
  "in_block E i \<longleftrightarrow> (\<exists>h e. (h, e) \<in> E \<and> h \<le> i \<and> i \<le> e)"

definition init_blocks :: "lines \<Rightarrow> nat \<Rightarrow> (nat \<times> nat) set \<Rightarrow> bool" where
  "init_blocks ls k E \<longleftrightarrow>
     (\<forall>h e. (h, e) \<in> E \<longrightarrow> h < k \<and> init_head (ls ! h) \<and> fn_block ls h e) \<and>
     (\<forall>h e h' e'. (h, e) \<in> E \<longrightarrow> (h', e') \<in> E \<longrightarrow> h < h' \<longrightarrow> e < h') \<and>
     (\<forall>i < k. init_head (ls ! i) \<longrightarrow> in_block E i)"

definition fixed_line :: "string \<Rightarrow> config \<Rightarrow> string \<Rightarrow> string \<Rightarrow> string \<Rightarrow> string res" where
  "fixed_line cwd cfg src dst line =
     (if include_line line then fix_include cwd cfg src dst line
      else if delete_match line then Inr '''' else Inr (fix_types line))"

text \<open>The file after the fix-ups of its first \<open>k\<close> lines\<close>

definition fixed_upto ::
  "string \<Rightarrow> config \<Rightarrow> string \<Rightarrow> string \<Rightarrow> lines \<Rightarrow> (nat \<times> nat) set \<Rightarrow> nat \<Rightarrow> lines \<Rightarrow> bool" where
  "fixed_upto cwd cfg src dst ls E k ls' \<longleftrightarrow> length ls' = length ls \<and>
     (\<forall>i < length ls. if in_block E i then ls' ! i = ''''
        else if i < k then fixed_line cwd cfg src dst (ls ! i) = Inr (ls' ! i)
        else ls' ! i = ls ! i)"

lemma fixed_line_blank [simp]: "fixed_line cwd cfg src dst '''' = Inr ''''"
  by (simp add: fixed_line_def include_line_def delete_match_def fix_types_def shadow_sched_class_def)

lemma in_block_Un: "in_block (insert (h, e) E) i \<longleftrightarrow> h \<le> i \<and> i \<le> e \<or> in_block E i"
  by (auto simp: in_block_def)

lemma init_head_delete: "init_head line \<Longrightarrow> delete_match line \<and> \<not> include_line line"
  by (simp add: init_head_def delete_match_def)

lemma init_blocksD:
  assumes "init_blocks ls k E"
  shows "(h, e) \<in> E \<Longrightarrow> h < k" "(h, e) \<in> E \<Longrightarrow> init_head (ls ! h)" "(h, e) \<in> E \<Longrightarrow> fn_block ls h e"
    "(h, e) \<in> E \<Longrightarrow> (h', e') \<in> E \<Longrightarrow> h < h' \<Longrightarrow> e < h'"
    "i < k \<Longrightarrow> init_head (ls ! i) \<Longrightarrow> in_block E i"
  using assms unfolding init_blocks_def by blast+

lemma init_blocks_unique:
  assumes "init_blocks ls k E" "init_blocks ls k E'"
  shows "E = E'"
proof -
  have incl: "(h, e) \<in> B" if A: "init_blocks ls k A" and B: "init_blocks ls k B"
    and IH: "\<forall>h' < h. \<forall>e. (h', e) \<in> B \<longrightarrow> (h', e) \<in> A" and he: "(h, e) \<in> A" for A B h e
  proof -
    from A he have "h < k" "init_head (ls ! h)" "fn_block ls h e" by (auto simp: init_blocks_def)
    with B obtain h' e' where h': "(h', e') \<in> B" "h' \<le> h" "h \<le> e'" by (auto simp: init_blocks_def in_block_def)
    show ?thesis
    proof (cases "h' = h")
      case True
      with B h'(1) have "fn_block ls h e'" by (simp add: init_blocks_def)
      with \<open>fn_block ls h e\<close> have "e' = e" by (rule fn_block_unique [symmetric])
      with h'(1) True show ?thesis by simp
    next
      case False
      with h'(2) IH h'(1) have "(h', e') \<in> A" "h' < h" by auto
      with init_blocksD(4) [OF A _ he] h'(3) show ?thesis by force
    qed
  qed
  have "\<forall>e. (h, e) \<in> E \<longleftrightarrow> (h, e) \<in> E'" for h
    by (induction h rule: less_induct) (use incl assms in blast)
  then show ?thesis by auto
qed

lemma init_blocks_restrict:
  assumes "init_blocks ls n E" "k \<le> n"
  shows "init_blocks ls k {p \<in> E. fst p < k}"
proof -
  have "in_block {p \<in> E. fst p < k} i" if "i < k" "init_head (ls ! i)" for i
  proof -
    have "i < n" using that(1) assms(2) by simp
    from init_blocksD(5) [OF assms(1) this that(2)] obtain h e where "(h, e) \<in> E" "h \<le> i" "i \<le> e"
      by (auto simp: in_block_def)
    with that(1) have "h < k" by simp
    with \<open>(h, e) \<in> E\<close> \<open>h \<le> i\<close> \<open>i \<le> e\<close> show ?thesis by (auto simp: in_block_def)
  qed
  then show ?thesis
    using init_blocksD(1-4) [OF assms(1)] unfolding init_blocks_def mem_Collect_eq fst_conv by blast
qed

lemma braces_upto_agree: "\<forall>i. h \<le> i \<longrightarrow> i < length ls \<longrightarrow> t ! i = ls ! i \<Longrightarrow> k < length ls \<Longrightarrow>
    braces_upto count t h k = braces_upto count ls h k"
  by (auto simp: braces_upto_def intro: sum.cong)

lemma fn_block_agree:
  assumes "\<forall>i. h \<le> i \<longrightarrow> i < length ls \<longrightarrow> t ! i = ls ! i" "length t = length ls"
  shows "fn_block t h e \<longleftrightarrow> fn_block ls h e"
proof -
  have "open_at t h k \<longleftrightarrow> open_at ls h k" if "k < length ls" for k
    by (simp add: open_at_def braces_upto_agree [OF assms(1) that])
  with assms(2) show ?thesis by (auto simp: fn_block_def)
qed

text \<open>Before line \<open>k\<close> is looked at, it is either deleted already, or it and all lines below are as in the source.\<close>

lemma fixed_upto_below:
  assumes "init_blocks ls k E" "fixed_upto cwd cfg src dst ls E k t" "\<not> in_block E k"
  shows "\<forall>i. k \<le> i \<longrightarrow> i < length ls \<longrightarrow> t ! i = ls ! i"
proof (intro allI impI)
  fix i assume i: "k \<le> i" "i < length ls"
  have "\<not> in_block E i"
  proof
    assume "in_block E i"
    then obtain h e where "(h, e) \<in> E" "i \<le> e" by (auto simp: in_block_def)
    with init_blocksD(1) [OF assms(1)] i(1) have "h \<le> k" "k \<le> e" by (auto intro: less_imp_le)
    with \<open>(h, e) \<in> E\<close> assms(3) show False by (auto simp: in_block_def)
  qed
  with assms(2) i show "t ! i = ls ! i" by (simp add: fixed_upto_def)
qed

lemma fix_up_row_block:
  assumes "init_blocks ls k E" "fixed_upto cwd cfg src dst ls E k t" "\<not> in_block E k" "k < length ls"
    and "init_head (ls ! k)" "fix_up_row cwd cfg src dst k t = Inr t'"
  obtains e where "init_blocks ls (Suc k) (insert (k, e) E)"
    "fixed_upto cwd cfg src dst ls (insert (k, e) E) (Suc k) t'"
proof -
  note below = fixed_upto_below [OF assms(1-3)]
  have len: "length t = length ls" using assms(2) by (simp add: fixed_upto_def)
  with assms(4) have k: "k < length t" by simp
  from assms(5,6) below assms(4) init_head_delete [OF assms(5)] len obtain t1 e where
    "merge_down_fn t k = Inr (t1, e)" "list_set t1 k '''' = Inr t'"
    by (auto simp: fix_up_row_def res_elims init_head_def)
  then have e: "fn_block t k e" "list_set (joined_block t k e) k '''' = Inr t'"
    using merge_down_fn_Inr_iff [OF k, of t1 e] by auto
  then have t': "t' = (joined_block t k e)[k := '''']" by (simp add: res_elims)
  have block: "fn_block ls k e" using e(1) fn_block_agree [OF below len] by simp
  have before: "h < k \<and> e' < k" if "(h, e') \<in> E" for h e'
  proof
    show "h < k" by (rule init_blocksD(1) [OF assms(1) that])
    with that assms(3) show "e' < k" by (meson in_block_def linorder_not_le less_imp_le)
  qed
  have "init_blocks ls (Suc k) (insert (k, e) E)"
    unfolding init_blocks_def
  proof (intro conjI allI impI)
    fix h e' assume "(h, e') \<in> insert (k, e) E"
    with block assms(5) init_blocksD(1-3) [OF assms(1), of h e']
    show "h < Suc k" "init_head (ls ! h)" "fn_block ls h e'" by auto
  next
    fix h e1 h' e2 assume p: "(h, e1) \<in> insert (k, e) E" "(h', e2) \<in> insert (k, e) E" "h < h'"
    then show "e1 < h'" using before init_blocksD(4) [OF assms(1)] by (metis insertE less_asym prod.inject)
  next
    fix i assume "i < Suc k" "init_head (ls ! i)"
    then show "in_block (insert (k, e) E) i"
      using init_blocksD(5) [OF assms(1)] block by (auto simp: in_block_Un less_Suc_eq fn_block_def)
  qed
  moreover have "fixed_upto cwd cfg src dst ls (insert (k, e) E) (Suc k) t'"
    using assms(2,4) len block
    by (auto simp: fixed_upto_def t' in_block_Un joined_block_def nth_list_update less_Suc_eq fn_block_def)
  ultimately show ?thesis by (rule that)
qed

lemma fix_up_row_line:
  assumes "init_blocks ls k E" "fixed_upto cwd cfg src dst ls E k t" "k < length ls"
    and "in_block E k \<or> \<not> init_head (ls ! k)"
  shows "fix_up_row cwd cfg src dst k t = Inr t' \<longleftrightarrow>
    (\<exists>l. fixed_line cwd cfg src dst (t ! k) = Inr l \<and> t' = t[k := l])" "init_blocks ls (Suc k) E"
proof -
  have len: "length t = length ls" using assms(2) by (simp add: fixed_upto_def)
  have "t ! k = (if in_block E k then '''' else ls ! k)" using assms(2,3) by (simp add: fixed_upto_def)
  then have "\<not> init_head (t ! k)" using assms(4) by (auto simp: init_head_def)
  then show "fix_up_row cwd cfg src dst k t = Inr t' \<longleftrightarrow>
    (\<exists>l. fixed_line cwd cfg src dst (t ! k) = Inr l \<and> t' = t[k := l])"
    using len assms(3) by (auto simp: fix_up_row_def fixed_line_def init_head_def list_get_def list_set_def res_elims)
  show "init_blocks ls (Suc k) E" using assms(1,4) by (auto simp: init_blocks_def less_Suc_eq)
qed

lemma fix_up_row_step:
  assumes "init_blocks ls k E" "fixed_upto cwd cfg src dst ls E k t" "k < length ls"
    and "fix_up_row cwd cfg src dst k t = Inr t'"
  shows "\<exists>E'. init_blocks ls (Suc k) E' \<and> fixed_upto cwd cfg src dst ls E' (Suc k) t'"
proof (cases "in_block E k \<or> \<not> init_head (ls ! k)")
  case False
  with fix_up_row_block [OF assms(1,2) _ assms(3) _ assms(4)] show ?thesis by metis
next
  case True
  note line = fix_up_row_line [OF assms(1-3) True]
  from line(1) assms(4) obtain l where l: "fixed_line cwd cfg src dst (t ! k) = Inr l" "t' = t[k := l]" by auto
  have "fixed_upto cwd cfg src dst ls E (Suc k) t'"
    using assms(2,3) l by (auto simp: fixed_upto_def less_Suc_eq nth_list_update split: if_splits)
  with line(2) show ?thesis by blast
qed

lemma fix_up_prefix:
  assumes "res_fold (fix_up_row cwd cfg src dst) [0..<k] ls = Inr t" "k \<le> length ls"
  shows "\<exists>E. init_blocks ls k E \<and> fixed_upto cwd cfg src dst ls E k t"
  using assms
proof (induction k arbitrary: t)
  case 0
  then show ?case by (auto simp: init_blocks_def fixed_upto_def in_block_def)
next
  case (Suc k)
  have "res_bind (res_fold (fix_up_row cwd cfg src dst) [0..<k] ls) (fix_up_row cwd cfg src dst k) = Inr t"
    using Suc.prems(1) by (cases "res_fold (fix_up_row cwd cfg src dst) [0..<k] ls")
      (auto simp: res_fold_append split: sum.splits)
  then obtain t0 where t0: "res_fold (fix_up_row cwd cfg src dst) [0..<k] ls = Inr t0"
    "fix_up_row cwd cfg src dst k t0 = Inr t" unfolding res_bind_Inr_iff by blast
  with Suc.IH [OF t0(1)] Suc.prems(2) fix_up_row_step [OF _ _ _ t0(2)] show ?case by auto
qed

lemma fix_up_returns:
  assumes "init_blocks ls (length ls) E" "fixed_upto cwd cfg src dst ls E (length ls) ls'" "k \<le> length ls"
  shows "\<exists>t. res_fold (fix_up_row cwd cfg src dst) [0..<k] ls = Inr t"
  using assms(3)
proof (induction k)
  case (Suc k)
  then obtain t where t: "res_fold (fix_up_row cwd cfg src dst) [0..<k] ls = Inr t" by auto
  from fix_up_prefix [OF t] Suc.prems obtain Ek where
    Ek: "init_blocks ls k Ek" "fixed_upto cwd cfg src dst ls Ek k t" by auto
  have eq: "Ek = {p \<in> E. fst p < k}"
    using init_blocks_unique [OF Ek(1) init_blocks_restrict [OF assms(1)]] Suc.prems by simp
  have len: "k < length t" "length t = length ls" using Ek(2) Suc.prems by (auto simp: fixed_upto_def)
  have "\<exists>t'. fix_up_row cwd cfg src dst k t = Inr t'"
  proof (cases "in_block Ek k \<or> \<not> init_head (ls ! k)")
    case True
    have "\<exists>l. fixed_line cwd cfg src dst (t ! k) = Inr l"
    proof (cases "in_block Ek k")
      case True
      with Ek(2) len have "t ! k = ''''" by (simp add: fixed_upto_def)
      then show ?thesis by simp
    next
      case False
      with True have "\<not> init_head (ls ! k)" by simp
      with assms(1) False have "\<not> in_block E k"
        by (force simp: eq in_block_def init_blocks_def)
      with assms(2) len Ek(2) False show ?thesis by (auto simp: fixed_upto_def)
    qed
    with fix_up_row_line(1) [OF Ek _ True] Suc.prems show ?thesis by auto
  next
    case False
    with assms(1) Suc.prems have "in_block E k" by (simp add: init_blocks_def)
    with False obtain e where "(k, e) \<in> E" by (force simp: eq in_block_def)
    with assms(1) have "fn_block ls k e" by (simp add: init_blocks_def)
    note below = fixed_upto_below [OF Ek] 
    have "fn_block t k e" using fn_block_agree [OF below len(2)] False \<open>fn_block ls k e\<close> by simp
    then have "merge_down_fn t k = Inr (joined_block t k e, e)" using merge_down_fn_Inr_iff [OF len(1)] by blast
    moreover have "init_head (t ! k)" using below False len by simp
    ultimately show ?thesis
      using len init_head_delete [of "t ! k"]
      by (auto simp: fix_up_row_def list_get_def list_set_def init_head_def joined_block_def)
  qed
  with t show ?case by (auto simp: res_fold_append)
qed simp

lemma fix_up_iff:
  "fix_up cwd cfg src dst ls = Inr ls' \<longleftrightarrow>
     (\<exists>E. init_blocks ls (length ls) E \<and> fixed_upto cwd cfg src dst ls E (length ls) ls')"
proof
  show "\<exists>E. init_blocks ls (length ls) E \<and> fixed_upto cwd cfg src dst ls E (length ls) ls'"
    if "fix_up cwd cfg src dst ls = Inr ls'"
    using fix_up_prefix that by (auto simp: fix_up_def)
next
  assume "\<exists>E. init_blocks ls (length ls) E \<and> fixed_upto cwd cfg src dst ls E (length ls) ls'"
  then obtain E where E: "init_blocks ls (length ls) E" "fixed_upto cwd cfg src dst ls E (length ls) ls'" by blast
  from fix_up_returns [OF E] obtain t where t: "fix_up cwd cfg src dst ls = Inr t" by (auto simp: fix_up_def)
  with fix_up_prefix [of cwd cfg src dst "length ls" ls t] obtain E' where E': "init_blocks ls (length ls) E'"
    "fixed_upto cwd cfg src dst ls E' (length ls) t" by (auto simp: fix_up_def)
  have "E' = E" by (rule init_blocks_unique [OF E'(1) E(1)])
  have "t ! i = ls' ! i" if "i < length ls" for i
    using E(2) E'(2) that unfolding fixed_upto_def \<open>E' = E\<close> by (cases "in_block E i") auto
  with E(2) E'(2) have "t = ls'" by (auto simp: fixed_upto_def intro: nth_equalityI)
  with t show "fix_up cwd cfg src dst ls = Inr ls'" by simp
qed

subsection \<open>The scheduler class definitions\<close>

lemma sched_class_at_Some: "sched_class_at s = Some (c, r) \<Longrightarrow> c \<in> set sched_classes \<and> s = ''struct sched_class '' @ c @ r"
  by (auto simp: sched_class_at_def find_Some_iff starts_with_iff)

lemma starts_with_same_prefix: "starts_with (p @ s) (p @ t) = starts_with s t"
  by (induction p) auto

lemma find_sched_class: "c \<in> set sched_classes \<Longrightarrow> find (starts_with (c @ r)) sched_classes = Some c"
  unfolding sched_classes_def by (simp, elim disjE) simp_all

lemma sched_class_at_found: "c \<in> set sched_classes \<Longrightarrow> sched_class_at (''struct sched_class '' @ c @ r) = Some (c, r)"
  by (simp only: sched_class_at_def starts_with_same_prefix find_sched_class) (simp add: drop_append)

lemma sched_class_at_iff:
  "sched_class_at s = Some (c, r) \<longleftrightarrow> c \<in> set sched_classes \<and> s = ''struct sched_class '' @ c @ r"
  using sched_class_at_Some sched_class_at_found by blast

text \<open>An occurrence that the regular expression can end at: before the first newline.\<close>

definition sched_class_occurs :: "string \<Rightarrow> string \<Rightarrow> string \<Rightarrow> string \<Rightarrow> bool" where
  "sched_class_occurs line pre c rest \<longleftrightarrow>
     c \<in> set sched_classes \<and> NL \<notin> set pre \<and> line = pre @ ''struct sched_class '' @ c @ rest"

lemma occurs_Nil: "\<not> sched_class_occurs [] pre c rest"
  by (simp add: sched_class_occurs_def)

lemma occurs_Cons:
  "sched_class_occurs (x # xs) pre c rest \<longleftrightarrow>
     (pre = [] \<and> sched_class_at (x # xs) = Some (c, rest)) \<or>
     (\<exists>pre'. pre = x # pre' \<and> x \<noteq> NL \<and> sched_class_occurs xs pre' c rest)"
  by (cases pre) (auto simp: sched_class_occurs_def sched_class_at_iff)

lemma sched_class_at_NL: "sched_class_at (NL # xs) = None"
  by (cases "sched_class_at (NL # xs)") (auto dest: sched_class_at_Some)

lemma last_sched_class_spec:
  "(case last_sched_class line of
      None \<Rightarrow> \<forall>pre c rest. \<not> sched_class_occurs line pre c rest
    | Some (c, rest) \<Rightarrow> \<exists>pre. sched_class_occurs line pre c rest \<and>
        (\<forall>pre' c' rest'. sched_class_occurs line pre' c' rest' \<longrightarrow> length pre' \<le> length pre))"
proof (induction line)
  case Nil
  then show ?case by (simp add: occurs_Nil)
next
  case (Cons x xs)
  show ?case
  proof (cases "x = NL")
    case True
    then show ?thesis by (simp add: occurs_Cons sched_class_at_NL)
  next
    case False
    show ?thesis
    proof (cases "last_sched_class xs")
      case None
      with Cons.IH have "\<not> sched_class_occurs xs pre c rest" for pre c rest by simp
      with False None show ?thesis by (auto simp: occurs_Cons split: option.splits)
    next
      case (Some r)
      obtain c rest where r: "r = (c, rest)" by fastforce
      with Cons.IH Some obtain pre where pre: "sched_class_occurs xs pre c rest"
        "\<forall>pre' c' rest'. sched_class_occurs xs pre' c' rest' \<longrightarrow> length pre' \<le> length pre" by auto
      with False have "sched_class_occurs (x # xs) (x # pre) c rest" by (simp add: occurs_Cons)
      moreover have "length pre' \<le> length (x # pre)" if "sched_class_occurs (x # xs) pre' c' rest'" for pre' c' rest'
        using that pre(2) by (fastforce simp: occurs_Cons)
      ultimately show ?thesis using False Some r by auto
    qed
  qed
qed

subsection \<open>Properties\<close>

text \<open>The variables of a unit: a sidecar file shares all its variables with vmlinux; in a
  module file exactly the non-public variables that are not listed as extra public stay
  private, and exactly the other ones that are not forced private are shared.\<close>

theorem var_location_spec:
  "set (shared_var_list (var_location x src vs)) =
     {v \<in> set vs. var_file v = src \<and> \<not> var_external v \<and> (src \<in> set (sdcr_srcs (x_cfg x)) \<or>
        ((var_public v \<or> var_name v \<in> set (extra_public (x_cfg x))) \<and> var_name v \<notin> set (force_private (x_cfg x))))} \<and>
   set (static_var_list (var_location x src vs)) =
     {v \<in> set vs. var_file v = src \<and> \<not> var_external v \<and> src \<notin> set (sdcr_srcs (x_cfg x)) \<and>
        \<not> var_public v \<and> var_name v \<notin> set (extra_public (x_cfg x))}"
  unfolding var_location_lists by (auto simp: unit_vars_def is_private_def)

text \<open>C35: the scheduler classes of the module get names of their own. In a line that does not start
  with \<open>extern\<close>, the last occurrence of one of the five class definitions before the first
  newline is renamed to its shadow, what stands before it is dropped and what follows is
  kept; a declaration that starts with \<open>extern\<close> and a line without an occurrence stay.\<close>

theorem shadow_sched_class_spec:
  "(\<exists>pre c rest. \<not> starts_with line ''extern '' \<and> sched_class_occurs line pre c rest \<and>
      (\<forall>pre' c' rest'. sched_class_occurs line pre' c' rest' \<longrightarrow> length pre' \<le> length pre) \<and>
      shadow_sched_class line = ''struct sched_class shadow_'' @ c @ rest) \<or>
   ((starts_with line ''extern '' \<or> (\<forall>pre c rest. \<not> sched_class_occurs line pre c rest)) \<and>
      shadow_sched_class line = line)"
proof (cases "starts_with line ''extern ''")
  case True
  then show ?thesis by (simp add: shadow_sched_class_def)
next
  case False
  with last_sched_class_spec [of line] show ?thesis
    by (cases "last_sched_class line") (auto simp: shadow_sched_class_def)
qed

theorem shadow_sched_class_spec_witness:
  "\<exists>pre c rest. sched_class_occurs ''const struct sched_class rt_sched_class'' pre c rest \<and>
    shadow_sched_class ''const struct sched_class rt_sched_class'' = ''struct sched_class shadow_'' @ c @ rest"
proof -
  have "shadow_sched_class ''const struct sched_class rt_sched_class'' \<noteq> ''const struct sched_class rt_sched_class''"
    by code_simp
  with shadow_sched_class_spec [of "''const struct sched_class rt_sched_class''"] show ?thesis by blast
qed

end
