(* ===== verification/GccTree.thy ===== *)
theory GccTree
  imports Linkage
begin

text \<open>
  What \<open>boundary/collect.py\<close> reads of the objects of the GCC plugin: declarations, types,
  statements and call graph nodes, as the values of the attributes the code uses. The plugin
  is a parameter of the model: a compilation unit is an input. The result of
  \<open>walk_tree\<close> is the list of the tree nodes in the order the walk visits them. GCC numbers
  lines and columns from 1; the code stores them from 0.
\<close>

subsection \<open>Types\<close>

text \<open>
  The attribute \<open>name\<close> of a type: none, a plain tag, or a declaration (a typedef), with its
  own name and whether it is built in.
\<close>

datatype type_name = Anonymous | Tag string | Typedef string bool

type_synonym gcc_loc = "nat \<times> nat"

text \<open>
  Pointer and array types with the type they refer to; enumerations and records with the
  location of the stub of their main variant.
\<close>

datatype gtype =
    PointerType type_name gtype
  | ArrayType type_name gtype
  | EnumeralType type_name gcc_loc
  | RecordType type_name gcc_loc
  | OtherType type_name

fun type_name_of :: "gtype \<Rightarrow> type_name" where
  "type_name_of (PointerType n t) = n"
| "type_name_of (ArrayType n t) = n"
| "type_name_of (EnumeralType n l) = n"
| "type_name_of (RecordType n l) = n"
| "type_name_of (OtherType n) = n"

text \<open>\<open>x.name\<close> on the name of a type; \<open>None\<close> has no such attribute.\<close>

fun name_of :: "type_name \<Rightarrow> string res" where
  "name_of Anonymous = Inl (AttributeError ''name'')"
| "name_of (Tag s) = Inr s"
| "name_of (Typedef s b) = Inr s"

text \<open>\<open>while isinstance(t, (gcc.PointerType, gcc.ArrayType)): t = t.dereference\<close>\<close>

fun base_type :: "gtype \<Rightarrow> gtype" where
  "base_type (PointerType n t) = base_type t"
| "base_type (ArrayType n t) = base_type t"
| "base_type t = t"

subsection \<open>Declarations, statements, nodes\<close>

text \<open>
  The values of an attribute of a declaration: the constant for a section, the printed form
  of the expression, with its quotes, for an alias.
\<close>

record gcc_decl =
  d_name :: string
  d_file :: string
  d_loc :: gcc_loc
  d_in_unit :: bool
  d_has_body :: bool
  d_attributes :: "(string, string list) dict"
  d_external :: bool
  d_public :: bool
  d_static :: bool
  d_inline :: bool
  d_type :: gtype
  d_str_decl :: string

text \<open>
  A struct as the plugin gives it: its identity, the name, the file of its stub, its field
  names. A node of an expression: its identity, and what the callbacks ask of it.
\<close>

record gcc_struct =
  s_id :: nat
  s_name :: type_name
  s_stub_file :: string
  s_fields :: "string option list"

datatype gcc_op =
    FunctionDeclOp gcc_decl
  | ComponentRef nat "nat option" "string option" gcc_struct
  | OtherOp

text \<open>\<open>ComponentRef id target field context\<close>: \<open>target\<close> is the node referred to if it is a component reference itself.\<close>

text \<open>
  A statement: its walk, and for a call the walk of each argument (\<open>None\<close> for an absent one)
  and the called function if it is known.
\<close>

datatype gcc_stmt =
    GimpleCall "gcc_decl option" "gcc_op list option list" "gcc_op list"
  | OtherStmt "gcc_op list"

fun stmt_walk :: "gcc_stmt \<Rightarrow> gcc_op list" where
  "stmt_walk (GimpleCall fd rhs w) = w"
| "stmt_walk (OtherStmt w) = w"

text \<open>
  A call graph node: declaration, bounds of the body, result and parameters with the string
  GCC prints for their types, basic blocks (\<open>None\<close>: without statements).
\<close>

record gcc_node =
  n_decl :: gcc_decl
  n_start :: gcc_loc
  n_end :: gcc_loc
  n_result :: "gtype \<times> string"
  n_arguments :: "(gtype \<times> string) list"
  n_blocks :: "gcc_stmt list option list"

text \<open>A global variable: \<open>v_located\<close> says whether it has a location, \<open>v_initial\<close> is the walk of its initial value.\<close>

record gcc_var =
  v_decl :: gcc_decl
  v_located :: bool
  v_initial :: "gcc_op list option"

record gcc_unit =
  u_main_input :: string
  u_nodes :: "gcc_node list"
  u_vars :: "gcc_var list"

text \<open>Line and column counted from 0\<close>

definition loc0 :: "gcc_loc \<Rightarrow> loc" where
  "loc0 l = (fst l - 1, snd l - 1)"

text \<open>\<open>each_stmt\<close>\<close>

definition each_stmt :: "gcc_node \<Rightarrow> gcc_stmt list" where
  "each_stmt n = concat (List.map_filter id (n_blocks n))"

fun is_call :: "gcc_stmt \<Rightarrow> bool" where
  "is_call (GimpleCall fd rhs w) = True"
| "is_call (OtherStmt w) = False"

text \<open>\<open>each_call_stmt\<close>\<close>

definition each_call_stmt :: "gcc_node \<Rightarrow> gcc_stmt list" where
  "each_call_stmt n = concat (map (filter is_call) (List.map_filter id (n_blocks n)))"

lemma each_call_stmt_eq: "each_call_stmt n = filter is_call (each_stmt n)"
  by (simp add: each_call_stmt_def each_stmt_def filter_concat)

end
