(* ===== verification/GccBugs.thy ===== *)
theory GccBugs
  imports GccTree
begin

text \<open>
  The class \<open>GccBugs\<close> of \<open>boundary/collect.py\<close>: repairs of the declarations as GCC prints
  them.
\<close>

subsection \<open>The repairs\<close>

text \<open>
  \<open>(.*)\[([0-9]*)\] \*\s*([^,\);]*)\<close>. At the head of a string: the bracket, its digits, and
  the rest after the name. The prefix \<open>.*\<close> is greedy and does not cross a newline, so the
  last such bracket of the line is taken.
\<close>

definition is_digit :: "char \<Rightarrow> bool" where
  "is_digit c = (c \<in> set ''0123456789'')"

definition bracket_at :: "string \<Rightarrow> (string \<times> string \<times> string) option" where
  "bracket_at s =
     (case s of
        [] \<Rightarrow> None
      | c # cs \<Rightarrow>
          let digits = takeWhile is_digit cs; t = dropWhile is_digit cs
          in if c = CHR ''['' \<and> starts_with t ''] *''
             then let u = dropWhile is_space (drop 3 t); inside = (\<lambda>x. x \<notin> set '',);'')
                  in Some (digits, takeWhile inside u, dropWhile inside u)
             else None)"

fun last_bracket :: "string \<Rightarrow> (string \<times> string \<times> string \<times> string) option" where
  "last_bracket [] = None"
| "last_bracket (c # cs) =
     (if c = NL then None
      else case last_bracket cs of
             Some (pre, m) \<Rightarrow> Some (c # pre, m)
           | None \<Rightarrow> map_option (\<lambda>m. ([], m)) (bracket_at (c # cs)))"

lemma bracket_at_rest: "bracket_at s = Some (d, n, r) \<Longrightarrow> length r < length s"
proof -
  assume "bracket_at s = Some (d, n, r)"
  then obtain c cs where s: "s = c # cs"
    and r: "r = dropWhile (\<lambda>x. x \<notin> set '',);'') (dropWhile is_space (drop 3 (dropWhile is_digit cs)))"
    by (auto simp: bracket_at_def Let_def split: list.splits if_splits)
  have "length r \<le> length (drop 3 (dropWhile is_digit cs))"
    unfolding r by (meson length_dropWhile_le le_trans)
  also have "\<dots> \<le> length (dropWhile is_digit cs)" by simp
  also have "\<dots> \<le> length cs" by (rule length_dropWhile_le)
  finally show ?thesis by (simp add: s)
qed

lemma last_bracket_rest: "last_bracket s = Some (p, d, n, r) \<Longrightarrow> length r < length s"
  by (induction s arbitrary: p) (force dest: bracket_at_rest split: if_splits option.splits)+

text \<open>\<open>array_ptr_re.sub(r'\1 (*\3)[\2]', s)\<close>\<close>

function array_pointer :: "string \<Rightarrow> string" where
  "array_pointer s =
     (case last_bracket s of
        Some (pre, d, n, r) \<Rightarrow> pre @ '' (*'' @ n @ '')['' @ d @ '']'' @ array_pointer r
      | None \<Rightarrow> (case s of [] \<Rightarrow> [] | c # cs \<Rightarrow> c # array_pointer cs))"
  by pat_completeness auto
termination
  by (relation "measure length") (auto dest: last_bracket_rest)

declare array_pointer.simps [simp del]

definition fix_typedef :: "gtype \<Rightarrow> string \<Rightarrow> string" where
  "fix_typedef t s =
     (case type_name_of (base_type t) of
        Typedef n b \<Rightarrow> replace (''struct '' @ n) n s
      | _ \<Rightarrow> s)"

text \<open>\<open>s[:i] + 'enum ' + s[i:]\<close> with \<open>i = s.find(n)\<close>, where \<open>-1\<close> is the last character.\<close>

definition enum_type_name :: "gtype \<Rightarrow> string \<Rightarrow> string res" where
  "enum_type_name t s =
     (case t of
        EnumeralType n l \<Rightarrow>
          res_bind (name_of n) (\<lambda>name.
            let i = (case find_at s name of Some i \<Rightarrow> i | None \<Rightarrow> length s - 1)
            in Inr (take i s @ ''enum '' @ drop i s))
      | _ \<Rightarrow> Inr s)"

definition is_val_list :: "gtype \<Rightarrow> bool" where
  "is_val_list t = (case t of PointerType n (RecordType (Typedef m True) l) \<Rightarrow> m = ''__va_list_tag'' | _ \<Rightarrow> False)"

definition va_list :: "gtype \<Rightarrow> string \<Rightarrow> string" where
  "va_list t s = (if is_val_list t then replace ''struct  *'' ''va_list'' s else s)"

definition array_size :: "string \<Rightarrow> string" where
  "array_size s = replace ''[<unknown>]'' ''[]'' s"

text \<open>\<open>GccBugs.fix\<close>: the repairs in the order of the list in the code\<close>

definition gcc_fix :: "gtype \<Rightarrow> string \<Rightarrow> string res" where
  "gcc_fix t s =
     res_bind (enum_type_name t (array_pointer s)) (\<lambda>s.
       Inr (va_list t (fix_typedef t (array_size s))))"

definition variadic_function :: "string \<Rightarrow> decl_str \<Rightarrow> decl_str" where
  "variadic_function str_decl d =
     (if contains str_decl ''...'' then d\<lparr>ds_params := ds_params d @ '', ...''\<rparr> else d)"

definition var_decl_start_loc :: "gcc_decl \<Rightarrow> gcc_loc" where
  "var_decl_start_loc d =
     (case base_type (d_type d) of
        EnumeralType Anonymous l \<Rightarrow> l
      | RecordType Anonymous l \<Rightarrow> l
      | _ \<Rightarrow> d_loc d)"

subsection \<open>What the repairs do\<close>

lemma bracket_at_no: "c \<noteq> CHR ''['' \<Longrightarrow> bracket_at (c # cs) = None"
  by (simp add: bracket_at_def Let_def)

lemma last_bracket_no: "CHR ''['' \<notin> set s \<Longrightarrow> last_bracket s = None"
  by (induction s) (auto simp: bracket_at_no)

lemma array_pointer_no: "CHR ''['' \<notin> set s \<Longrightarrow> array_pointer s = s"
proof (induction s)
  case (Cons c s)
  then have "last_bracket (c # s) = None" by (intro last_bracket_no) simp
  with Cons show ?case by (simp add: array_pointer.simps [of "c # s"])
qed (simp add: array_pointer.simps)

text \<open>The text of an array type \<open>base[d] *name\<close> as GCC prints a pointer to it\<close>

definition array_ptr_text :: "string \<Rightarrow> string \<Rightarrow> string \<Rightarrow> string \<Rightarrow> bool" where
  "array_ptr_text base d name rest \<longleftrightarrow>
     NL \<notin> set base \<and> list_all is_digit d \<and> CHR ''['' \<notin> set name \<union> set rest \<and>
     list_all (\<lambda>c. c \<notin> set '',);'') name \<and> (name = [] \<or> \<not> is_space (hd name)) \<and>
     (rest = [] \<or> hd rest \<in> set '',);'')"

lemma digit_no_bracket [simp]: "is_digit c \<Longrightarrow> c \<noteq> CHR '']'' \<and> c \<noteq> CHR ''[''"
  by (auto simp: is_digit_def)

lemma space_no_bracket: "is_space c \<Longrightarrow> c \<noteq> CHR ''['' \<and> c \<notin> set '',);''"
  by (auto simp: is_space_def whitespace_def)

lemma takeWhile_exact: "list_all P xs \<Longrightarrow> ys = [] \<or> \<not> P (hd ys) \<Longrightarrow> takeWhile P (xs @ ys) = xs"
  by (induction xs) (auto simp: takeWhile_eq_Nil_iff)

lemma dropWhile_exact: "list_all P xs \<Longrightarrow> ys = [] \<or> \<not> P (hd ys) \<Longrightarrow> dropWhile P (xs @ ys) = ys"
  by (induction xs) (auto simp: dropWhile_eq_self_iff)

lemma bracket_at_text:
  assumes "array_ptr_text base d name rest" "list_all is_space ws"
  shows "bracket_at (''['' @ d @ ''] *'' @ ws @ name @ rest) = Some (d, name, rest)"
proof -
  let ?in = "\<lambda>x. x \<notin> set '',);''"
  have d: "takeWhile is_digit (d @ ''] *'' @ ws @ name @ rest) = d"
    "dropWhile is_digit (d @ ''] *'' @ ws @ name @ rest) = ''] *'' @ ws @ name @ rest"
    using assms by (intro takeWhile_exact dropWhile_exact; simp add: array_ptr_text_def is_digit_def)+
  have ws: "dropWhile is_space (ws @ name @ rest) = name @ rest"
    using assms by (intro dropWhile_exact) (cases name; auto simp: array_ptr_text_def dest: space_no_bracket)+
  have n: "takeWhile ?in (name @ rest) = name" "dropWhile ?in (name @ rest) = rest"
    using assms by (intro takeWhile_exact dropWhile_exact; simp add: array_ptr_text_def)+
  show ?thesis using d ws n by (simp add: bracket_at_def Let_def)
qed

lemma last_bracket_prefix:
  "NL \<notin> set base \<Longrightarrow> last_bracket s = Some (pre, m) \<Longrightarrow> last_bracket (base @ s) = Some (base @ pre, m)"
  by (induction base) auto

lemma array_pointer_text:
  assumes "array_ptr_text base d name rest" "list_all is_space ws"
  shows "array_pointer (base @ ''['' @ d @ ''] *'' @ ws @ name @ rest) = base @ '' (*'' @ name @ '')['' @ d @ '']'' @ rest"
proof -
  define t where "t = d @ ''] *'' @ ws @ name @ rest"
  have "CHR ''['' \<notin> set d" using assms(1) digit_no_bracket unfolding array_ptr_text_def list_all_iff by blast
  moreover have "CHR ''['' \<notin> set ws" using assms(2) space_no_bracket unfolding list_all_iff by blast
  ultimately have "CHR ''['' \<notin> set t" using assms(1) by (simp add: array_ptr_text_def t_def)
  then have "last_bracket t = None" by (rule last_bracket_no)
  moreover have "bracket_at (CHR ''['' # t) = Some (d, name, rest)"
    using bracket_at_text [OF assms] by (simp add: t_def)
  ultimately have "last_bracket (CHR ''['' # t) = Some ([], d, name, rest)" by simp
  then have last: "last_bracket (base @ CHR ''['' # t) = Some (base @ [], d, name, rest)"
    using assms(1) by (intro last_bracket_prefix) (simp_all add: array_ptr_text_def)
  have "array_pointer (base @ CHR ''['' # t) = base @ '' (*'' @ name @ '')['' @ d @ '']'' @ array_pointer rest"
    by (subst array_pointer.simps) (simp add: last)
  moreover have "array_pointer rest = rest" using assms(1) by (intro array_pointer_no) (simp add: array_ptr_text_def)
  ultimately show ?thesis by (simp add: t_def)
qed

end
