(* ===== verification/Collect.thy ===== *)
theory Collect
  imports GccBugs Analyze
begin

text \<open>
  The class \<open>Collection\<close> of \<open>boundary/collect.py\<close>: the metadata of one compilation unit.
  The attributes \<open>fn_prop\<close>, \<open>cb_prop\<close>, \<open>intf_prop\<close>, \<open>edge_prop\<close>, \<open>var_prop\<close>,
  \<open>struct_prop\<close> are the results of the five passes. \<open>cwd\<close> is the working directory of the
  compiler, against which \<open>relpath\<close> resolves.
\<close>

subsection \<open>Signatures and sections\<close>

definition decl_relpath :: "string \<Rightarrow> gcc_decl \<Rightarrow> string res" where
  "decl_relpath cwd d = relpath cwd (d_file d) ''.''"

definition decl_sig :: "string \<Rightarrow> gcc_decl \<Rightarrow> sig res" where
  "decl_sig cwd d =
     (if \<not> d_has_body d then Inr (d_name d, ''?'')
      else res_map (\<lambda>p. (d_name d, p)) (decl_relpath cwd d))"

text \<open>The first section attribute decides.\<close>

definition decl_in_section :: "gcc_decl \<Rightarrow> string \<Rightarrow> bool res" where
  "decl_in_section d section =
     (case find (\<lambda>(name, val). name \<in> {''section'', ''__section__''}) (d_attributes d) of
        None \<Rightarrow> Inr False
      | Some (name, val) \<Rightarrow> res_bind (py_assert (length val = 1) '''') (\<lambda>_. Inr (hd val = section)))"

definition has_attribute :: "gcc_decl \<Rightarrow> string \<Rightarrow> bool" where
  "has_attribute d a \<longleftrightarrow> a \<in> fst ` set (d_attributes d)"

definition decl_is_weak :: "gcc_decl \<Rightarrow> bool" where
  "decl_is_weak d \<longleftrightarrow> has_attribute d ''__weak__'' \<or> has_attribute d ''weak''"

subsection \<open>Functions\<close>

definition node_decl_str :: "gcc_node \<Rightarrow> decl_str res" where
  "node_decl_str n =
     res_bind (gcc_fix (fst (n_result n)) (snd (n_result n))) (\<lambda>ret.
     res_bind (res_concat (\<lambda>(t, s). res_map (\<lambda>p. [p]) (gcc_fix t s)) (n_arguments n)) (\<lambda>params.
       Inr (variadic_function (d_str_decl (n_decl n))
              \<lparr>ds_fn = d_name (n_decl n), ds_ret = ret,
               ds_params = (if n_arguments n = [] then ''void'' else join '', '' params)\<rparr>)))"

definition fn_properties :: "string \<Rightarrow> gcc_node \<Rightarrow> fn_meta res" where
  "fn_properties cwd n =
     (let d = n_decl n
      in res_bind (decl_in_section d ''.init.text'') (\<lambda>is_init.
         res_bind (decl_relpath cwd d) (\<lambda>rel_file.
         res_bind (decl_sig cwd d) (\<lambda>signature.
           Inr \<lparr>fn_name = d_name d, fn_init = is_init, fn_file = rel_file,
                l_brace_loc = loc0 (n_start n), r_brace_loc = loc0 (n_end n), fn_name_loc = loc0 (d_loc d),
                fn_external = d_external d, fn_public = d_public d, fn_static = d_static d,
                fn_inline = (d_inline d \<or> has_attribute d ''always_inline''), fn_weak = decl_is_weak d,
                fn_signature = signature, fn_decl_str = None\<rparr>))))"

definition is_interface_name :: "config \<Rightarrow> string \<Rightarrow> bool" where
  "is_interface_name cfg name \<longleftrightarrow>
     name \<in> set (config_interface cfg) \<or> list_ex (starts_with name) (interface_prefix cfg)"

text \<open>One node: the function it adds, and the interface if it is one\<close>

definition collect_fn_node :: "string \<Rightarrow> config \<Rightarrow> string \<Rightarrow> gcc_node \<Rightarrow> (fn_meta \<times> sig option) option res" where
  "collect_fn_node cwd cfg src_f n =
     (let d = n_decl n
      in if \<not> d_in_unit d \<or> \<not> d_has_body d then Inr None
         else res_bind (fn_properties cwd n) (\<lambda>p.
           if src_f \<in> set (mod_srcs cfg @ sdcr_srcs cfg)
           then res_bind (node_decl_str n) (\<lambda>ds.
             let p = p\<lparr>fn_decl_str := Some ds\<rparr>
             in if src_f \<in> set (mod_srcs cfg) \<and> is_interface_name cfg (d_name d)
                then res_bind (decl_sig cwd d) (\<lambda>s. Inr (Some (p, Some s)))
                else Inr (Some (p, None)))
           else Inr (Some (p, None))))"

definition collect_fn :: "string \<Rightarrow> config \<Rightarrow> gcc_unit \<Rightarrow> (fn_meta list \<times> sig list) res" where
  "collect_fn cwd cfg u =
     res_bind (res_concat (\<lambda>n. res_map (\<lambda>r. case r of None \<Rightarrow> [] | Some x \<Rightarrow> [x])
                              (collect_fn_node cwd cfg (u_main_input u) n)) (u_nodes u)) (\<lambda>xs.
       Inr (map fst xs, List.map_filter snd xs))"

subsection \<open>Variables\<close>

definition var_properties :: "string \<Rightarrow> config \<Rightarrow> gcc_decl \<Rightarrow> var_meta res" where
  "var_properties cwd cfg d =
     res_bind (decl_relpath cwd d) (\<lambda>rel_file.
     res_bind (if d_file d \<in> set (mod_srcs cfg @ sdcr_srcs cfg)
               then let s = strip_chars '' ;'' (hd (split_on (CHR ''='') (d_str_decl d))) @ '';''
                    in res_map Some (gcc_fix (d_type d) (replace ''static '' ''extern '' s))
               else Inr None) (\<lambda>ds.
       Inr \<lparr>var_name = d_name d, var_file = rel_file, var_name_loc = loc0 (d_loc d),
            decl_start_line = fst (var_decl_start_loc d) - 1, var_external = d_external d,
            var_public = d_public d, var_static = d_static d, var_decl_str = ds\<rparr>))"

definition collect_var :: "string \<Rightarrow> config \<Rightarrow> gcc_unit \<Rightarrow> var_meta list res" where
  "collect_var cwd cfg u =
     res_concat (\<lambda>v. if \<not> v_located v \<or> \<not> d_in_unit (v_decl v) then Inr []
                      else res_map (\<lambda>p. [p]) (var_properties cwd cfg (v_decl v))) (u_vars u)"

subsection \<open>Callbacks\<close>

definition mark_callback :: "string \<Rightarrow> gcc_op \<Rightarrow> sig list res" where
  "mark_callback cwd op =
     (case op of
        FunctionDeclOp d \<Rightarrow>
          res_bind (decl_in_section d ''.init.text'') (\<lambda>is_init.
            if is_init then Inr [] else res_map (\<lambda>s. [s]) (decl_sig cwd d))
      | _ \<Rightarrow> Inr [])"

text \<open>The arguments of a call, the called expression itself left out; or the whole statement\<close>

fun callback_ops :: "gcc_stmt \<Rightarrow> gcc_op list" where
  "callback_ops (GimpleCall fd rhs w) = concat (List.map_filter id (tl rhs))"
| "callback_ops (OtherStmt w) = w"

definition type_tag :: "gcc_decl \<Rightarrow> string res" where
  "type_tag d = (case type_name_of (d_type d) of Anonymous \<Rightarrow> Inr '''' | n \<Rightarrow> name_of n)"

definition var_callbacks :: "string \<Rightarrow> gcc_var \<Rightarrow> sig list res" where
  "var_callbacks cwd v =
     res_bind (type_tag (v_decl v)) (\<lambda>type_name.
       case v_initial v of
         None \<Rightarrow> Inr []
       | Some ops \<Rightarrow>
           if type_name = ''sched_class'' then Inr []
           else res_bind (decl_in_section (v_decl v) ''.discard.addressable'') (\<lambda>b.
                  if b then Inr [] else res_concat (mark_callback cwd) ops))"

definition collect_callback :: "string \<Rightarrow> gcc_unit \<Rightarrow> sig list res" where
  "collect_callback cwd u =
     res_bind (res_concat (\<lambda>n. if \<not> d_has_body (n_decl n) then Inr []
                  else res_concat (mark_callback cwd) (concat (map callback_ops (each_stmt n)))) (u_nodes u)) (\<lambda>cbs.
     res_bind (res_concat (var_callbacks cwd) (u_vars u)) (\<lambda>vcbs.
       Inr (cbs @ vcbs)))"

subsection \<open>Call graph edges\<close>

definition alias_target :: "gcc_decl \<Rightarrow> string res" where
  "alias_target d =
     (case map_of (d_attributes d) ''alias'' of
        None \<Rightarrow> Inl (KeyError ''alias'')
      | Some val \<Rightarrow> res_map (replace [DQUOTE] '''') (list_get val 0))"

definition call_edge :: "string \<Rightarrow> gcc_decl \<Rightarrow> gcc_stmt \<Rightarrow> raw_edge list res" where
  "call_edge cwd d stmt =
     (case stmt of
        GimpleCall (Some fndecl) rhs w \<Rightarrow>
          res_bind (decl_sig cwd d) (\<lambda>f.
          res_bind (decl_sig cwd fndecl) (\<lambda>t. Inr [\<lparr>re_from = f, re_to = t\<rparr>]))
      | _ \<Rightarrow> Inr [])"

definition node_edges :: "string \<Rightarrow> gcc_node \<Rightarrow> raw_edge list res" where
  "node_edges cwd n =
     (let d = n_decl n
      in res_bind (decl_in_section d ''.init.text'') (\<lambda>is_init.
           if is_init then Inr []
           else if \<not> d_has_body d
           then res_bind (alias_target d) (\<lambda>real_name.
                  res_map (\<lambda>f. [\<lparr>re_from = f, re_to = (real_name, ''?'')\<rparr>]) (decl_sig cwd d))
           else res_concat (call_edge cwd d) (each_call_stmt n)))"

definition collect_edge :: "string \<Rightarrow> gcc_unit \<Rightarrow> raw_edge list res" where
  "collect_edge cwd u = res_concat (node_edges cwd) (u_nodes u)"

subsection \<open>Struct fields\<close>

text \<open>
  \<open>while op.field.name is None and op in parent: op = parent[op]\<close>. An operation is its
  identity and its field name. The chain of parents is determined by the dictionary, so a
  chain longer than the dictionary repeats itself and the loop does not end: \<open>None\<close>.
\<close>

type_synonym field_op = "nat \<times> string option"

fun climb_parents :: "nat \<Rightarrow> (nat, field_op) dict \<Rightarrow> field_op \<Rightarrow> field_op option" where
  "climb_parents 0 parent op = None"
| "climb_parents (Suc k) parent op =
     (if snd op \<noteq> None then Some op
      else case map_of parent (fst op) of None \<Rightarrow> Some op | Some op' \<Rightarrow> climb_parents k parent op')"

text \<open>\<open>op.field.name or '<unknown>'\<close>\<close>

definition or_unknown :: "string option \<Rightarrow> string" where
  "or_unknown f = (case f of None \<Rightarrow> ''<unknown>'' | Some s \<Rightarrow> if s = '''' then ''<unknown>'' else s)"

type_synonym user_fields = "(gcc_decl \<times> string) list"
type_synonym public_uses = "(nat, gcc_struct \<times> user_fields) dict"

text \<open>\<open>public_fields[ctx].add(user)\<close> on the \<open>defaultdict\<close> of sets\<close>

definition add_use :: "gcc_struct \<Rightarrow> gcc_decl \<times> string \<Rightarrow> public_uses \<Rightarrow> public_uses" where
  "add_use ctx use pf =
     (let old = (case map_of pf (s_id ctx) of None \<Rightarrow> [] | Some (s, us) \<Rightarrow> us)
      in AList.update (s_id ctx) (ctx, if use \<in> set old then old else old @ [use]) pf)"

definition mark_public_field ::
  "string \<Rightarrow> config \<Rightarrow> gcc_decl \<Rightarrow> gcc_op \<Rightarrow> (nat, field_op) dict \<times> public_uses \<Rightarrow> ((nat, field_op) dict \<times> public_uses) res" where
  "mark_public_field cwd cfg d op = (\<lambda>(parent, pf).
     (case op of
        ComponentRef i target field ctx \<Rightarrow>
          let parent = (case target of Some t \<Rightarrow> AList.update t (i, field) parent | None \<Rightarrow> parent)
          in (case climb_parents (Suc (length parent)) parent (i, field) of
                None \<Rightarrow> Inl NonTermination
              | Some (_, name) \<Rightarrow>
                  res_bind (relpath cwd (s_stub_file ctx) ''.'') (\<lambda>loc_file.
                    Inr (parent, if loc_file \<in> set (mod_hdrs cfg) \<and> s_name ctx \<noteq> Anonymous
                                 then add_use ctx (d, or_unknown name) pf else pf)))
      | _ \<Rightarrow> Inr (parent, pf)))"

definition mark_stmt :: "string \<Rightarrow> config \<Rightarrow> gcc_decl \<Rightarrow> gcc_stmt \<Rightarrow> public_uses \<Rightarrow> public_uses res" where
  "mark_stmt cwd cfg d stmt pf =
     res_map snd (res_fold (mark_public_field cwd cfg d) (stmt_walk stmt) ([], pf))"

definition mark_node :: "string \<Rightarrow> config \<Rightarrow> gcc_node \<Rightarrow> public_uses \<Rightarrow> public_uses res" where
  "mark_node cwd cfg n pf =
     (if \<not> d_has_body (n_decl n) then Inr pf
      else res_fold (mark_stmt cwd cfg (n_decl n)) (each_stmt n) pf)"

text \<open>\<open>itertools.groupby\<close> by the field, and the local function \<open>groupby\<close>\<close>

fun group_runs :: "user_fields \<Rightarrow> (string \<times> gcc_decl list) list" where
  "group_runs [] = []"
| "group_runs ((d, f) # xs) =
     (case group_runs xs of
        (g, ds) # rest \<Rightarrow> if f = g then (f, d # ds) # rest else (f, [d]) # (g, ds) # rest
      | [] \<Rightarrow> [(f, [d])])"

definition group_fields :: "string \<Rightarrow> user_fields \<Rightarrow> (string, sig list) dict res" where
  "group_fields cwd uses =
     res_fold (\<lambda>(k, ds) acc. res_map (\<lambda>us. AList.update k us acc) (res_list (decl_sig cwd) ds))
       (group_runs (sort_key snd uses)) []"

definition struct_entry :: "string \<Rightarrow> gcc_struct \<times> user_fields \<Rightarrow> (string, struct_meta) dict \<Rightarrow> (string, struct_meta) dict res" where
  "struct_entry cwd = (\<lambda>(s, uses) d.
     res_bind (name_of (s_name s)) (\<lambda>name.
     res_bind (group_fields cwd uses) (\<lambda>pf.
       Inr (AList.update name
              \<lparr>all_fields = filter (\<lambda>f. f \<noteq> '''') (List.map_filter id (s_fields s)), public_fields = pf\<rparr> d))))"

definition collect_struct :: "string \<Rightarrow> config \<Rightarrow> gcc_unit \<Rightarrow> (string, struct_meta) dict res" where
  "collect_struct cwd cfg u =
     res_bind (res_fold (mark_node cwd cfg) (u_nodes u) []) (\<lambda>pf.
       res_fold (struct_entry cwd) (map snd pf) [])"

subsection \<open>The metadata of a unit\<close>

definition collect_info :: "string \<Rightarrow> config \<Rightarrow> string \<Rightarrow> gcc_unit \<Rightarrow> raw_edge meta option res" where
  "collect_info cwd cfg pass u =
     (if pass \<noteq> ''*free_lang_data'' then Inr None
      else res_bind (collect_fn cwd cfg u) (\<lambda>(fns, intfs).
           res_bind (collect_callback cwd u) (\<lambda>cbs.
           res_bind (collect_struct cwd cfg u) (\<lambda>structs.
           res_bind (collect_edge cwd u) (\<lambda>es.
           res_bind (collect_var cwd cfg u) (\<lambda>vars.
             Inr (Some \<lparr>m_fn = fns, m_var = vars, m_edge = es, m_callback = cbs, m_interface = intfs,
                        m_struct = structs\<rparr>)))))))"

subsection \<open>Functions are well formed\<close>

lemma decl_sig_Inr:
  "decl_sig cwd d = Inr s \<longleftrightarrow>
     (if d_has_body d then \<exists>p. decl_relpath cwd d = Inr p \<and> s = (d_name d, p) else s = (d_name d, ''?''))"
  by (auto simp: decl_sig_def res_elims)

lemma node_decl_str_fn: "node_decl_str n = Inr ds \<Longrightarrow> ds_fn ds = d_name (n_decl n)"
  by (auto simp: node_decl_str_def variadic_function_def res_elims)

lemma fn_properties_wf:
  "fn_properties cwd n = Inr f \<Longrightarrow> d_has_body (n_decl n) \<Longrightarrow>
     fn_signature f = (fn_name f, fn_file f) \<and> fn_name f = d_name (n_decl n) \<and> fn_decl_str f = None \<and>
     decl_sig cwd (n_decl n) = Inr (fn_signature f)"
  by (auto simp: fn_properties_def Let_def res_elims decl_sig_Inr)

definition fn_wf :: "config \<Rightarrow> string \<Rightarrow> fn_meta \<Rightarrow> bool" where
  "fn_wf cfg src f \<longleftrightarrow> fn_signature f = (fn_name f, fn_file f) \<and>
     (fn_decl_str f \<noteq> None \<longleftrightarrow> src \<in> set (mod_srcs cfg @ sdcr_srcs cfg)) \<and>
     (\<forall>d. fn_decl_str f = Some d \<longrightarrow> ds_fn d = fn_name f)"

lemma collect_fn_node_wf:
  assumes "collect_fn_node cwd cfg src n = Inr (Some (f, intf))"
  shows "fn_wf cfg src f"
    "intf = Some s \<Longrightarrow> s = fn_signature f \<and> src \<in> set (mod_srcs cfg) \<and> is_interface_name cfg (fn_name f)"
proof -
  from assms obtain p where body: "d_has_body (n_decl n)" and p: "fn_properties cwd n = Inr p"
    by (auto simp: collect_fn_node_def Let_def res_elims split: if_splits)
  note wf = fn_properties_wf [OF p body]
  from assms p show "fn_wf cfg src f"
    using wf by (auto simp: collect_fn_node_def Let_def res_elims fn_wf_def dest: node_decl_str_fn split: if_splits)
  from assms p show "s = fn_signature f \<and> src \<in> set (mod_srcs cfg) \<and> is_interface_name cfg (fn_name f)" if "intf = Some s"
    using that wf by (auto simp: collect_fn_node_def Let_def res_elims split: if_splits)
qed

lemma collect_fn_elems:
  assumes "collect_fn cwd cfg u = Inr (fns, intfs)"
  shows "f \<in> set fns \<longleftrightarrow> (\<exists>n \<in> set (u_nodes u). \<exists>i. collect_fn_node cwd cfg (u_main_input u) n = Inr (Some (f, i)))"
    "s \<in> set intfs \<longleftrightarrow> (\<exists>n \<in> set (u_nodes u). \<exists>f. collect_fn_node cwd cfg (u_main_input u) n = Inr (Some (f, Some s)))"
proof -
  from assms obtain xs where xs: "fns = map fst xs" "intfs = List.map_filter snd xs"
    "res_concat (\<lambda>n. res_map (\<lambda>r. case r of None \<Rightarrow> [] | Some x \<Rightarrow> [x])
        (collect_fn_node cwd cfg (u_main_input u) n)) (u_nodes u) = Inr xs"
    by (auto simp: collect_fn_def res_elims)
  have el: "x \<in> set xs \<longleftrightarrow> (\<exists>n \<in> set (u_nodes u). collect_fn_node cwd cfg (u_main_input u) n = Inr (Some x))" for x
  proof -
    have one: "(\<exists>zs. res_map (\<lambda>r. case r of None \<Rightarrow> [] | Some x \<Rightarrow> [x]) m = Inr zs \<and> x \<in> set zs) \<longleftrightarrow> m = Inr (Some x)" for m
      by (cases m; cases x) (auto split: option.splits)
    show ?thesis by (simp add: set_res_concat [OF xs(3)] one)
  qed
  show "f \<in> set fns \<longleftrightarrow> (\<exists>n \<in> set (u_nodes u). \<exists>i. collect_fn_node cwd cfg (u_main_input u) n = Inr (Some (f, i)))"
    using el by (force simp: xs(1))
  show "s \<in> set intfs \<longleftrightarrow> (\<exists>n \<in> set (u_nodes u). \<exists>f. collect_fn_node cwd cfg (u_main_input u) n = Inr (Some (f, Some s)))"
    using el by (force simp: xs(2) map_filter_def)
qed

subsection \<open>Callbacks and edges\<close>

lemma mark_callback_Inr:
  "mark_callback cwd op = Inr ss \<Longrightarrow> s \<in> set ss \<longleftrightarrow>
     (\<exists>d. op = FunctionDeclOp d \<and> decl_in_section d ''.init.text'' = Inr False \<and> decl_sig cwd d = Inr s)"
  by (auto simp: mark_callback_def res_elims split: gcc_op.splits if_splits)

text \<open>The functions whose address a list of visited nodes takes\<close>

definition taken :: "string \<Rightarrow> gcc_op list \<Rightarrow> sig set" where
  "taken cwd ops = {s. \<exists>d. FunctionDeclOp d \<in> set ops \<and> decl_in_section d ''.init.text'' = Inr False \<and> decl_sig cwd d = Inr s}"

lemma mark_callbacks_taken:
  assumes "res_concat (mark_callback cwd) ops = Inr ss"
  shows "set ss = taken cwd ops"
proof -
  have "s \<in> set ss \<longleftrightarrow> s \<in> taken cwd ops" for s
  proof
    assume "s \<in> set ss"
    then show "s \<in> taken cwd ops"
      unfolding set_res_concat [OF assms] taken_def using mark_callback_Inr by blast
  next
    assume "s \<in> taken cwd ops"
    then obtain d where d: "FunctionDeclOp d \<in> set ops" "decl_in_section d ''.init.text'' = Inr False" "decl_sig cwd d = Inr s"
      by (auto simp: taken_def)
    then have "mark_callback cwd (FunctionDeclOp d) = Inr [s]" by (simp add: mark_callback_def)
    with d(1) show "s \<in> set ss" unfolding set_res_concat [OF assms] by force
  qed
  then show ?thesis by blast
qed

text \<open>The edges of one node, and its callbacks\<close>

definition edge_of :: "string \<Rightarrow> gcc_node \<Rightarrow> raw_edge \<Rightarrow> bool" where
  "edge_of cwd n e \<longleftrightarrow> decl_in_section (n_decl n) ''.init.text'' = Inr False \<and>
     decl_sig cwd (n_decl n) = Inr (re_from e) \<and>
     (if d_has_body (n_decl n)
      then \<exists>fd rhs w. GimpleCall (Some fd) rhs w \<in> set (each_stmt n) \<and> decl_sig cwd fd = Inr (re_to e)
      else \<exists>real_name. alias_target (n_decl n) = Inr real_name \<and> re_to e = (real_name, ''?''))"

lemma set_call_edge:
  "call_edge cwd d stmt = Inr es \<Longrightarrow> e \<in> set es \<longleftrightarrow>
     (\<exists>fd rhs w. stmt = GimpleCall (Some fd) rhs w \<and> decl_sig cwd d = Inr (re_from e) \<and> decl_sig cwd fd = Inr (re_to e))"
  by (auto simp: call_edge_def res_elims split: gcc_stmt.splits option.splits)

lemma set_call_edges:
  assumes "res_concat (call_edge cwd d) stmts = Inr es"
  shows "e \<in> set es \<longleftrightarrow> (\<exists>fd rhs w. GimpleCall (Some fd) rhs w \<in> set stmts \<and>
    decl_sig cwd d = Inr (re_from e) \<and> decl_sig cwd fd = Inr (re_to e))"
proof
  assume "e \<in> set es"
  then show "\<exists>fd rhs w. GimpleCall (Some fd) rhs w \<in> set stmts \<and>
      decl_sig cwd d = Inr (re_from e) \<and> decl_sig cwd fd = Inr (re_to e)"
    unfolding set_res_concat [OF assms] using set_call_edge by blast
next
  assume "\<exists>fd rhs w. GimpleCall (Some fd) rhs w \<in> set stmts \<and>
      decl_sig cwd d = Inr (re_from e) \<and> decl_sig cwd fd = Inr (re_to e)"
  then obtain fd rhs w where c: "GimpleCall (Some fd) rhs w \<in> set stmts"
    "decl_sig cwd d = Inr (re_from e)" "decl_sig cwd fd = Inr (re_to e)" by blast
  from res_concat_each [OF assms c(1)] obtain zs where
    "call_edge cwd d (GimpleCall (Some fd) rhs w) = Inr zs" "set zs \<subseteq> set es" by blast
  with set_call_edge [OF this(1)] c show "e \<in> set es" by blast
qed

lemma set_node_edges:
  assumes "node_edges cwd n = Inr es"
  shows "e \<in> set es \<longleftrightarrow> edge_of cwd n e"
proof -
  from assms obtain b where b: "decl_in_section (n_decl n) ''.init.text'' = Inr b"
    by (auto simp: node_edges_def Let_def res_elims)
  consider "b" | "\<not> b" "\<not> d_has_body (n_decl n)" | "\<not> b" "d_has_body (n_decl n)" by blast
  then show ?thesis
  proof cases
    case 1
    with assms b show ?thesis by (simp add: node_edges_def edge_of_def)
  next
    case 2
    with assms b obtain real_name f where "alias_target (n_decl n) = Inr real_name"
      "decl_sig cwd (n_decl n) = Inr f" "es = [\<lparr>re_from = f, re_to = (real_name, ''?'')\<rparr>]"
      by (auto simp: node_edges_def Let_def res_elims)
    with 2 b show ?thesis by (auto simp: edge_of_def)
  next
    case 3
    with assms b have run: "res_concat (call_edge cwd (n_decl n)) (each_call_stmt n) = Inr es"
      by (simp add: node_edges_def Let_def)
    have "GimpleCall fd rhs w \<in> set (each_call_stmt n) \<longleftrightarrow> GimpleCall fd rhs w \<in> set (each_stmt n)" for fd rhs w
      by (simp add: each_call_stmt_eq)
    with set_call_edges [OF run] 3 b show ?thesis by (auto simp: edge_of_def)
  qed
qed

lemma set_collect_edge:
  assumes "collect_edge cwd u = Inr es"
  shows "set es = {e. \<exists>n \<in> set (u_nodes u). edge_of cwd n e}"
proof -
  have "set es = (\<Union>n \<in> set (u_nodes u). {e. edge_of cwd n e})"
    using assms [unfolded collect_edge_def] by (rule set_res_concat_UN) (auto simp: set_node_edges)
  then show ?thesis by auto
qed

text \<open>The walks a unit's callbacks are looked for in\<close>

definition var_sources :: "gcc_var \<Rightarrow> gcc_op list set" where
  "var_sources v = {ops. v_initial v = Some ops \<and> type_tag (v_decl v) \<noteq> Inr ''sched_class'' \<and>
     decl_in_section (v_decl v) ''.discard.addressable'' = Inr False}"

definition node_sources :: "gcc_node \<Rightarrow> gcc_op list set" where
  "node_sources n = {callback_ops st | st. d_has_body (n_decl n) \<and> st \<in> set (each_stmt n)}"

lemma set_var_callbacks:
  assumes "var_callbacks cwd v = Inr ss"
  shows "set ss = (\<Union>ops \<in> var_sources v. taken cwd ops)"
proof (cases "v_initial v")
  case None
  with assms show ?thesis by (auto simp: var_callbacks_def var_sources_def res_elims)
next
  case (Some ops)
  from assms obtain tag where tag: "type_tag (v_decl v) = Inr tag" by (auto simp: var_callbacks_def res_elims)
  show ?thesis
  proof (cases "tag = ''sched_class''")
    case True
    with assms Some tag show ?thesis by (simp add: var_callbacks_def var_sources_def)
  next
    case False
    with assms Some tag obtain b where b: "decl_in_section (v_decl v) ''.discard.addressable'' = Inr b"
      by (auto simp: var_callbacks_def res_elims)
    with assms Some tag False show ?thesis
      by (cases b) (auto simp: var_callbacks_def var_sources_def dest: mark_callbacks_taken)
  qed
qed

lemma taken_concat: "taken cwd (concat opss) = (\<Union>ops \<in> set opss. taken cwd ops)"
  by (auto simp: taken_def)

lemma set_node_callbacks:
  assumes "(if \<not> d_has_body (n_decl n) then Inr []
      else res_concat (mark_callback cwd) (concat (map callback_ops (each_stmt n)))) = Inr ss"
  shows "set ss = (\<Union>ops \<in> node_sources n. taken cwd ops)"
proof (cases "d_has_body (n_decl n)")
  case True
  with assms have "set ss = taken cwd (concat (map callback_ops (each_stmt n)))"
    by (intro mark_callbacks_taken) simp
  with True show ?thesis by (auto simp: taken_concat node_sources_def)
next
  case False
  with assms show ?thesis by (simp add: node_sources_def)
qed

lemma set_collect_callback:
  assumes "collect_callback cwd u = Inr cbs"
  shows "set cbs = (\<Union>n \<in> set (u_nodes u). \<Union>ops \<in> node_sources n. taken cwd ops) \<union>
    (\<Union>v \<in> set (u_vars u). \<Union>ops \<in> var_sources v. taken cwd ops)"
proof -
  let ?node = "\<lambda>n. if \<not> d_has_body (n_decl n) then Inr []
      else res_concat (mark_callback cwd) (concat (map callback_ops (each_stmt n)))"
  from assms obtain cbs1 cbs2 where run: "res_concat ?node (u_nodes u) = Inr cbs1"
    "res_concat (var_callbacks cwd) (u_vars u) = Inr cbs2" "cbs = cbs1 @ cbs2"
    by (auto simp: collect_callback_def res_elims)
  have "set cbs1 = (\<Union>n \<in> set (u_nodes u). \<Union>ops \<in> node_sources n. taken cwd ops)"
    using run(1) by (rule set_res_concat_UN) (rule set_node_callbacks)
  moreover have "set cbs2 = (\<Union>v \<in> set (u_vars u). \<Union>ops \<in> var_sources v. taken cwd ops)"
    using run(2) by (rule set_res_concat_UN) (rule set_var_callbacks)
  ultimately show ?thesis by (simp add: run(3))
qed

lemma collect_edge_call:
  assumes run: "collect_edge cwd u = Inr es" and n: "n \<in> set (u_nodes u)" "d_has_body (n_decl n)"
    and init: "decl_in_section (n_decl n) ''.init.text'' = Inr False"
    and call: "GimpleCall (Some fd) rhs w \<in> set (each_stmt n)" and callee: "decl_sig cwd fd = Inr t"
  shows "\<exists>e \<in> set es. decl_sig cwd (n_decl n) = Inr (re_from e) \<and> re_to e = t"
proof -
  from res_concat_each [OF run [unfolded collect_edge_def] n(1)] obtain zs where
    "node_edges cwd n = Inr zs" by blast
  with n(2) init have calls: "res_concat (call_edge cwd (n_decl n)) (each_call_stmt n) = Inr zs"
    by (simp add: node_edges_def Let_def)
  have "GimpleCall (Some fd) rhs w \<in> set (each_call_stmt n)" using call by (simp add: each_call_stmt_eq)
  from res_concat_each [OF calls this] obtain f where f: "decl_sig cwd (n_decl n) = Inr f"
    by (auto simp: call_edge_def res_elims callee)
  have "edge_of cwd n \<lparr>re_from = f, re_to = t\<rparr>" using n(2) init call callee f by (auto simp: edge_of_def)
  with n(1) have "\<lparr>re_from = f, re_to = t\<rparr> \<in> set es" using set_collect_edge [OF run] by blast
  with f show ?thesis by force
qed

subsection \<open>Functions whose address is taken\<close>

text \<open>Independently of the traversal: by an argument of a call, or anywhere in another statement;
  and the initial values of the variables that the code looks at.\<close>

definition stmt_takes :: "gcc_stmt \<Rightarrow> gcc_decl \<Rightarrow> bool" where
  "stmt_takes st d \<longleftrightarrow>
     (\<exists>fd callee args w arg. st = GimpleCall fd (callee # args) w \<and> Some arg \<in> set args \<and> FunctionDeclOp d \<in> set arg) \<or>
     (\<exists>w. st = OtherStmt w \<and> FunctionDeclOp d \<in> set w)"

definition init_takes :: "gcc_var \<Rightarrow> gcc_decl \<Rightarrow> bool" where
  "init_takes v d \<longleftrightarrow> (\<exists>ops. v_initial v = Some ops \<and> FunctionDeclOp d \<in> set ops)"

text \<open>
  The variables whose initial values \<open>collect_callback\<close> leaves out on purpose: the scheduler
  classes, which are private to the module, and what the linker discards. A function whose
  address is taken by such a variable only is no callback.
\<close>

definition skipped_variable :: "gcc_var \<Rightarrow> bool" where
  "skipped_variable v \<longleftrightarrow>
     type_tag (v_decl v) = Inr ''sched_class'' \<or> decl_in_section (v_decl v) ''.discard.addressable'' = Inr True"

definition body_takes :: "gcc_unit \<Rightarrow> gcc_decl \<Rightarrow> bool" where
  "body_takes u d \<longleftrightarrow>
     (\<exists>n \<in> set (u_nodes u). d_has_body (n_decl n) \<and> (\<exists>st \<in> set (each_stmt n). stmt_takes st d))"

lemma callback_ops_takes: "FunctionDeclOp d \<in> set (callback_ops st) \<longleftrightarrow> stmt_takes st d"
proof (cases st)
  case (GimpleCall fd rhs w)
  then show ?thesis by (cases rhs) (force simp: stmt_takes_def map_filter_def)+
qed (auto simp: stmt_takes_def)

text \<open>The section of a variable is looked up only where its initial value is walked.\<close>

lemma var_section:
  assumes "collect_callback cwd u = Inr cbs" "v \<in> set (u_vars u)"
  shows "v_initial v = None \<or> type_tag (v_decl v) = Inr ''sched_class'' \<or>
    (\<exists>b. decl_in_section (v_decl v) ''.discard.addressable'' = Inr b)"
proof -
  from assms(1) obtain vcbs where "res_concat (var_callbacks cwd) (u_vars u) = Inr vcbs"
    by (auto simp: collect_callback_def res_elims)
  from res_concat_each [OF this assms(2)] obtain ss where "var_callbacks cwd v = Inr ss" by blast
  then show ?thesis
    by (auto simp: var_callbacks_def res_elims split: option.splits if_splits)
qed

lemma collect_callback_takes:
  assumes "collect_callback cwd u = Inr cbs"
  shows "s \<in> set cbs \<longleftrightarrow>
    (\<exists>d. (body_takes u d \<or> (\<exists>v \<in> set (u_vars u). init_takes v d \<and> \<not> skipped_variable v)) \<and>
      decl_in_section d ''.init.text'' = Inr False \<and> decl_sig cwd d = Inr s)"
proof -
  have nodes: "(\<exists>ops \<in> node_sources n. FunctionDeclOp d \<in> set ops) \<longleftrightarrow>
      d_has_body (n_decl n) \<and> (\<exists>st \<in> set (each_stmt n). stmt_takes st d)" for n d
    unfolding node_sources_def by (auto simp: callback_ops_takes)
  have "(\<exists>ops \<in> var_sources v. FunctionDeclOp d \<in> set ops) \<longleftrightarrow> init_takes v d \<and> \<not> skipped_variable v"
    if "v \<in> set (u_vars u)" for v d
    using var_section [OF assms that]
    unfolding var_sources_def init_takes_def skipped_variable_def by fastforce
  then have vars: "(\<exists>v \<in> set (u_vars u). \<exists>ops \<in> var_sources v. FunctionDeclOp d \<in> set ops) \<longleftrightarrow>
      (\<exists>v \<in> set (u_vars u). init_takes v d \<and> \<not> skipped_variable v)" for d by blast
  show ?thesis
    unfolding set_collect_callback [OF assms] body_takes_def taken_def nodes [symmetric] vars [symmetric] by blast
qed

subsection \<open>The contract of the metadata\<close>

type_synonym collect_input = "string \<times> config \<times> string \<times> gcc_unit"

definition collect_of :: "collect_input \<Rightarrow> raw_edge meta option res" where
  "collect_of = (\<lambda>(cwd, cfg, pass, u). collect_info cwd cfg pass u)"

lemma collect_info_run:
  assumes "collect_info cwd cfg pass u = Inr (Some m)"
  shows "collect_fn cwd cfg u = Inr (m_fn m, m_interface m)" "collect_callback cwd u = Inr (m_callback m)"
    "collect_struct cwd cfg u = Inr (m_struct m)" "collect_edge cwd u = Inr (m_edge m)"
    "collect_var cwd cfg u = Inr (m_var m)"
  using assms by (auto simp: collect_info_def res_elims split: if_splits)

interpretation collect: metadata_source collect_of
proof
  fix i m f
  assume run: "collect_of i = Inr (Some m)"
  obtain cwd cfg pass u where i: "i = (cwd, cfg, pass, u)" by (cases i)
  from run have "collect_info cwd cfg pass u = Inr (Some m)" by (simp add: i collect_of_def)
  then have fns: "collect_fn cwd cfg u = Inr (m_fn m, m_interface m)" by (rule collect_info_run)
  note elems = collect_fn_elems [OF fns]
  show "fn_signature f = (fn_name f, fn_file f)" if "f \<in> set (m_fn m)"
    using that elems(1) collect_fn_node_wf(1) unfolding fn_wf_def by blast
  fix s assume "s \<in> set (m_interface m)"
  then obtain n f where n: "n \<in> set (u_nodes u)" "collect_fn_node cwd cfg (u_main_input u) n = Inr (Some (f, Some s))"
    using elems(2) by blast
  with collect_fn_node_wf [OF n(2)] elems(1) show "\<exists>f \<in> set (m_fn m). fn_signature f = s \<and> fn_decl_str f \<noteq> None"
    unfolding fn_wf_def by (intro bexI [of _ f]) auto
qed

end
