(* ===== verification/Example.thy ===== *)
theory Example
  imports Extract Collect
begin

text \<open>
  A small kernel for the witnesses: \<open>kernel/sched/core.c\<close> is the module, with the
  interface \<open>schedule\<close>, the insider \<open>pick\<close>, the callback \<open>tick\<close>, and \<open>helper\<close>, which
  \<open>kernel/fork.c\<close> also calls; \<open>kernel/cpuacct.c\<close> holds the sidecar \<open>charge\<close> with its
  inlined helper \<open>sum\<close>.
\<close>

definition CORE :: string where "CORE = ''kernel/sched/core.c''"
definition FORK :: string where "FORK = ''kernel/fork.c''"
definition ACCT :: string where "ACCT = ''kernel/cpuacct.c''"

definition ex_fn :: "string \<Rightarrow> string \<Rightarrow> bool \<Rightarrow> nat \<Rightarrow> fn_meta" where
  "ex_fn name file public row =
     \<lparr>fn_name = name, fn_init = False, fn_file = file, l_brace_loc = (row + 1, 0), r_brace_loc = (row + 3, 0),
      fn_name_loc = (row, 4), fn_external = False, fn_public = public, fn_static = \<not> public,
      fn_inline = False, fn_weak = False, fn_signature = (name, file),
      fn_decl_str = Some \<lparr>ds_fn = name, ds_ret = ''int'', ds_params = ''void''\<rparr>\<rparr>"

definition ex_core :: "raw_edge meta" where
  "ex_core = \<lparr>m_fn = [ex_fn ''schedule'' CORE True 12, ex_fn ''pick'' CORE False 0, ex_fn ''tick'' CORE False 8,
       ex_fn ''helper'' CORE True 4, ex_fn ''fast'' CORE False 16],
     m_var = [],
     m_edge = [\<lparr>re_from = (''schedule'', CORE), re_to = (''pick'', CORE)\<rparr>,
               \<lparr>re_from = (''pick'', CORE), re_to = (''helper'', CORE)\<rparr>,
               \<lparr>re_from = (''pick'', CORE), re_to = (''memcpy'', ''?'')\<rparr>,
               \<lparr>re_from = (''helper'', CORE), re_to = (''fast'', CORE)\<rparr>],
     m_callback = [(''tick'', CORE)],
     m_interface = [(''schedule'', CORE)],
     m_struct = [(''rq'', \<lparr>all_fields = [''nr'', ''lock''],
       public_fields = [(''lock'', [(''pick'', CORE), (''helper'', CORE)]), (''nr'', [(''pick'', CORE)])]\<rparr>)]\<rparr>"

definition ex_fork :: "raw_edge meta" where
  "ex_fork = \<lparr>m_fn = [(ex_fn ''copy'' FORK True 0)\<lparr>fn_decl_str := None\<rparr>], m_var = [],
     m_edge = [\<lparr>re_from = (''copy'', FORK), re_to = (''helper'', ''?'')\<rparr>],
     m_callback = [], m_interface = [], m_struct = []\<rparr>"

definition ex_acct :: "raw_edge meta" where
  "ex_acct = \<lparr>m_fn = [ex_fn ''charge'' ACCT True 0, ex_fn ''sum'' ACCT False 4], m_var = [],
     m_edge = [\<lparr>re_from = (''charge'', ACCT), re_to = (''sum'', ACCT)\<rparr>],
     m_callback = [], m_interface = [], m_struct = []\<rparr>"

definition ex_raw :: raw_metas where
  "ex_raw = [(''kernel/sched/core.c.boundary'', ex_core), (''kernel/fork.c.boundary'', ex_fork),
             (''kernel/cpuacct.c.boundary'', ex_acct)]"

definition ex_cfg :: config where
  "ex_cfg = \<lparr>mod_files = [''kernel/sched/core.c'', ''kernel/sched/sched.h''],
     config_sidecar = Some [(''charge'', ACCT)], interface_prefix = [''__x64_sys_''],
     config_interface = [''schedule''], extra_public = [], force_private = []\<rparr>"

definition ex_elf :: "string list" where
  "ex_elf = ['''', ''Symbol table'', ''Num: Value'',
     ''1: 0 0 FILE LOCAL DEFAULT ABS core.c'',
     ''2: 0 9 FUNC LOCAL DEFAULT 1 pick'',
     ''3: 0 9 FUNC LOCAL DEFAULT 1 tick'',
     ''4: 0 9 FUNC LOCAL DEFAULT 1 fast.isra.0'',
     ''5: 0 0 FILE LOCAL DEFAULT ABS fork.c'',
     ''6: 0 9 FUNC GLOBAL DEFAULT 1 schedule'',
     ''7: 0 9 FUNC GLOBAL DEFAULT 1 helper'',
     ''8: 0 9 FUNC GLOBAL DEFAULT 1 copy'',
     ''9: 0 9 FUNC GLOBAL DEFAULT 1 charge'',
     ''10: 0 0 FILE LOCAL DEFAULT ABS core.c'',
     ''11: 0 9 FUNC LOCAL DEFAULT 1 schedule.part.0'']"

definition ex_analysis :: "analysis res" where
  "ex_analysis = analyze sorted_list_of_set 20 ex_cfg ex_raw ex_elf"

text \<open>The text of \<open>kernel/sched/core.c\<close>\<close>

definition ex_function :: "string \<Rightarrow> string \<Rightarrow> lines" where
  "ex_function head body = map (\<lambda>l. l @ [NL]) [head, [CHR ''{''], body, [CHR ''}'']]"

definition ex_lines :: lines where
  "ex_lines = ex_function ''static int pick(void)'' ''return helper();'' @
     ex_function ''int helper(void)'' ''return fast();'' @
     ex_function ''static int tick(void)'' ''return 0;'' @
     ex_function ''int schedule(void)'' ''return pick();'' @
     ex_function ''static int fast(void)'' ''return 1;''"

subsection \<open>The compilation unit of the module\<close>

text \<open>\<open>kernel/sched/core.c\<close> as the compiler plugin sees it; its metadata is \<open>ex_core\<close>.\<close>

definition ex_int :: "gtype \<times> string" where
  "ex_int = (OtherType (Tag ''int''), ''int'')"

definition ex_decl :: "string \<Rightarrow> string \<Rightarrow> bool \<Rightarrow> bool \<Rightarrow> nat \<Rightarrow> gcc_decl" where
  "ex_decl name file body public row =
     \<lparr>d_name = name, d_file = file, d_loc = (row + 1, 5), d_in_unit = True, d_has_body = body, d_attributes = [],
      d_external = False, d_public = public, d_static = \<not> public, d_inline = False, d_type = fst ex_int,
      d_str_decl = ''int '' @ name @ '' (void)''\<rparr>"

definition ex_node :: "gcc_decl \<Rightarrow> gcc_stmt list \<Rightarrow> gcc_node" where
  "ex_node d body =
     \<lparr>n_decl = d, n_start = (fst (d_loc d) + 1, 1), n_end = (fst (d_loc d) + 3, 1), n_result = ex_int,
      n_arguments = [], n_blocks = [None, Some body]\<rparr>"

definition ex_rq :: gcc_struct where
  "ex_rq = \<lparr>s_id = 7, s_name = Tag ''rq'', s_stub_file = ''kernel/sched/sched.h'', s_fields = [Some ''nr'', Some ''lock'']\<rparr>"

definition ex_call :: "gcc_decl \<Rightarrow> gcc_stmt" where
  "ex_call d = GimpleCall (Some d) [Some [FunctionDeclOp d]] [FunctionDeclOp d]"

definition ex_tick :: gcc_decl where "ex_tick = ex_decl ''tick'' CORE True False 8"
definition ex_pick :: gcc_decl where "ex_pick = ex_decl ''pick'' CORE True False 0"
definition ex_helper :: gcc_decl where "ex_helper = ex_decl ''helper'' CORE True True 4"
definition ex_fast :: gcc_decl where "ex_fast = ex_decl ''fast'' CORE True False 16"

definition ex_unit :: gcc_unit where
  "ex_unit = \<lparr>u_main_input = CORE,
     u_nodes =
       [ex_node (ex_decl ''schedule'' CORE True True 12) [ex_call ex_pick],
        ex_node ex_pick [OtherStmt [ComponentRef 1 None (Some ''nr'') ex_rq, ComponentRef 2 None (Some ''lock'') ex_rq],
          ex_call ex_helper, ex_call (ex_decl ''memcpy'' ''include/string.h'' False True 0)],
        ex_node ex_tick [],
        ex_node ex_helper [OtherStmt [FunctionDeclOp ex_tick, ComponentRef 3 None (Some ''lock'') ex_rq], ex_call ex_fast],
        ex_node ex_fast []],
     u_vars = []\<rparr>"

definition ex_fork_unit :: gcc_unit where
  "ex_fork_unit = \<lparr>u_main_input = FORK,
     u_nodes = [ex_node (ex_decl ''copy'' FORK True True 0) [ex_call (ex_decl ''helper'' ''kernel/sched/sched.h'' False True 0)]],
     u_vars = []\<rparr>"

definition ex_acct_unit :: gcc_unit where
  "ex_acct_unit = \<lparr>u_main_input = ACCT,
     u_nodes = [ex_node (ex_decl ''charge'' ACCT True True 0) [ex_call (ex_decl ''sum'' ACCT True False 4)],
                ex_node (ex_decl ''sum'' ACCT True False 4) []],
     u_vars = []\<rparr>"

lemma ex_collected: "collect_info ''/k'' ex_cfg ''*free_lang_data'' ex_unit = Inr (Some ex_core)"
  by code_simp

lemma ex_raw_collected:
  assumes "(name, m) \<in> set ex_raw"
  shows "\<exists>cwd cfg pass u. collect_info cwd cfg pass u = Inr (Some m)"
proof -
  have "collect_info ''/k'' ex_cfg ''*free_lang_data'' ex_fork_unit = Inr (Some ex_fork)" by code_simp
  moreover have "collect_info ''/k'' ex_cfg ''*free_lang_data'' ex_acct_unit = Inr (Some ex_acct)" by code_simp
  moreover from assms have "m = ex_core \<or> m = ex_fork \<or> m = ex_acct" by (auto simp: ex_raw_def)
  ultimately show ?thesis using ex_collected by metis
qed

subsection \<open>The run\<close>

definition ex_class :: func_class where
  "ex_class = empty_func_class
     \<lparr>sched_outsider := {(''helper'', CORE), (''fast'', CORE)}, callback := {(''tick'', CORE)},
      interface := {(''schedule'', CORE)}, insider := {(''pick'', CORE)}, outsider_opt := {(''fast'', CORE)}\<rparr>"

lemma ex_view:
  "res_map (\<lambda>a. let c = a_class a in
      (insider c, border c, sched_outsider c, fc_sidecar c, mangled c, in_vmlinux c))
     ex_analysis =
   Inr ({(''pick'', CORE)}, {(''schedule'', CORE), (''tick'', CORE)}, {(''helper'', CORE), (''fast'', CORE)},
     {(''charge'', ACCT)}, {(''fast'', CORE), (''schedule'', CORE)},
     {(''pick'', CORE), (''tick'', CORE), (''schedule'', CORE), (''helper'', CORE), (''charge'', ACCT)})"
  by code_simp

lemma ex_view_rest:
  "res_map (\<lambda>a. let c = a_class a in
      (callback c, interface c, init c, outsider_opt c, export c, sdcr_out c, mod_fns c, fake_global c, sdcr_fns c, a_edges a))
     ex_analysis =
   Inr ({(''tick'', CORE)}, {(''schedule'', CORE)}, {}, {(''fast'', CORE)}, {}, {},
     {(''schedule'', CORE), (''pick'', CORE), (''tick'', CORE), (''helper'', CORE), (''fast'', CORE)}, {},
     {(''charge'', ACCT), (''sum'', ACCT)},
     [((''schedule'', CORE), (''pick'', CORE)), ((''pick'', CORE), (''helper'', CORE)),
      ((''helper'', CORE), (''fast'', CORE)), ((''copy'', FORK), (''helper'', CORE)),
      ((''charge'', ACCT), (''sum'', ACCT))])"
  by code_simp

lemma ex_run:
  obtains a where "analyze sorted_list_of_set 20 ex_cfg ex_raw ex_elf = Inr a"
    "insider (a_class a) = {(''pick'', CORE)}"
    "border (a_class a) = {(''schedule'', CORE), (''tick'', CORE)}"
    "sched_outsider (a_class a) = {(''helper'', CORE), (''fast'', CORE)}"
    "fc_sidecar (a_class a) = {(''charge'', ACCT)}"
    "mangled (a_class a) = {(''fast'', CORE), (''schedule'', CORE)}"
    "in_vmlinux (a_class a) =
       {(''pick'', CORE), (''tick'', CORE), (''schedule'', CORE), (''helper'', CORE), (''charge'', ACCT)}"
    "init (a_class a) = {}" "interface (a_class a) = {(''schedule'', CORE)}"
    "mod_fns (a_class a) =
       {(''schedule'', CORE), (''pick'', CORE), (''tick'', CORE), (''helper'', CORE), (''fast'', CORE)}"
    "sdcr_fns (a_class a) = {(''charge'', ACCT), (''sum'', ACCT)}"
    "export (a_class a) = {}" "fake_global (a_class a) = {}" "callback (a_class a) = {(''tick'', CORE)}"
    "a_edges a = [((''schedule'', CORE), (''pick'', CORE)), ((''pick'', CORE), (''helper'', CORE)),
      ((''helper'', CORE), (''fast'', CORE)), ((''copy'', FORK), (''helper'', CORE)),
      ((''charge'', ACCT), (''sum'', ACCT))]"
    "a_function a = function_section ex_cfg ex_class"
proof -
  from ex_view obtain a where a: "ex_analysis = Inr a" by (auto simp: res_map_Inr_iff)
  then have run: "analyze sorted_list_of_set 20 ex_cfg ex_raw ex_elf = Inr a" by (simp add: ex_analysis_def)
  then have "a_function a = function_section ex_cfg (a_class a)" by (rule analyze_run)
  also have "\<dots> = function_section ex_cfg ex_class"
    using ex_view ex_view_rest
    by (simp add: a Let_def function_section_def classes_out_def ex_class_def empty_func_class_def)
  finally show ?thesis
    using ex_view ex_view_rest run by (intro that [of a]) (simp_all add: a Let_def)
qed

text \<open>The extraction of the file with the classes of the run\<close>

definition ex_config :: ex_config where
  "ex_config = \<lparr>x_cfg = ex_cfg, x_function = function_section ex_cfg ex_class\<rparr>"

definition ex_lists :: "fn_lists res" where
  "ex_lists = function_location ex_config CORE (m_fn ex_core)"

definition ex_extracted :: "lines res" where
  "ex_extracted = res_bind ex_lists (\<lambda>s. function_extract ex_config s ex_lines)"

lemma ex_extracted_run: "\<not> isl ex_extracted"
  by code_simp

definition ex_var :: var_meta where
  "ex_var = \<lparr>var_name = ''nr'', var_file = CORE, var_name_loc = (0, 4), decl_start_line = 0, var_external = False,
     var_public = True, var_static = False, var_decl_str = Some ''extern int nr;''\<rparr>"

end
