(* ===== verification/StructUses.thy ===== *)
theory StructUses
  imports Collect
begin

text \<open>
  The pass \<open>collect_struct\<close> of \<open>boundary/collect.py\<close>: the grouping of the uses by field, the
  end of the climb to a named field, and the completeness of the recorded uses.
\<close>

subsection \<open>Grouped struct fields\<close>

lemma keys_group_runs: "map fst (group_runs xs) = remdups_adj (map snd xs)"
proof (induction xs rule: group_runs.induct)
  case (2 d f xs)
  show ?case
  proof (cases "group_runs xs")
    case Nil
    with 2 have "remdups_adj (map snd xs) = []" by simp
    then have "xs = []" by simp
    then show ?thesis by simp
  next
    case (Cons p rest)
    with 2 obtain u us where xs: "xs = u # us" by (cases xs) auto
    from 2 Cons xs have "fst p = snd u" by (auto simp: remdups_adj_Cons split: list.splits if_splits)
    with 2 Cons xs show ?thesis by (cases p) (auto simp: remdups_adj_Cons split: list.splits if_splits)
  qed
qed simp

lemma distinct_remdups_adj_sorted: "sorted xs \<Longrightarrow> distinct (remdups_adj xs)"
  by (induction xs rule: remdups_adj.induct) (auto simp: less_le)

lemma group_runs_sorted:
  "sorted (map snd xs) \<Longrightarrow> (f, ds) \<in> set (group_runs xs) \<Longrightarrow> ds = map fst (filter (\<lambda>u. snd u = f) xs)"
proof (induction xs arbitrary: f ds rule: group_runs.induct)
  case (2 d g xs)
  have sorted: "sorted (map snd xs)" "\<And>u. u \<in> set xs \<Longrightarrow> g \<le> snd u" using 2(2) by auto
  have dist: "distinct (map fst (group_runs xs))"
    by (simp add: keys_group_runs distinct_remdups_adj_sorted sorted(1))
  have keys: "set (map fst (group_runs xs)) = snd ` set xs" by (simp add: keys_group_runs)
  show ?case
  proof (cases "group_runs xs")
    case Nil
    then have "xs = []" using keys by simp
    with 2(3) show ?thesis by auto
  next
    case (Cons p rest)
    obtain h es where p: "p = (h, es)" by fastforce
    have IH: "es = map fst (filter (\<lambda>u. snd u = h) xs)"
      "(k, cs) \<in> set rest \<Longrightarrow> cs = map fst (filter (\<lambda>u. snd u = k) xs)" for k cs
      using 2(1) [OF sorted(1)] by (simp_all add: Cons p)
    have rest: "(k, cs) \<in> set rest \<Longrightarrow> k \<noteq> h" for k cs using dist by (force simp: Cons p)
    show ?thesis
    proof (cases "g = h")
      case True
      with 2(3) IH rest show ?thesis by (auto simp: Cons p)
    next
      case False
      have "g \<notin> snd ` set xs"
      proof
        assume "g \<in> snd ` set xs"
        then obtain u us where xs: "xs = u # us" by (cases xs) auto
        have "h = hd (map fst (group_runs xs))" by (simp add: Cons p)
        then have "h = hd (map snd xs)" by (simp only: keys_group_runs hd_remdups_adj)
        then have "h = snd u" by (simp add: xs)
        with sorted xs \<open>g \<in> snd ` set xs\<close> have "h \<le> g" "g \<le> h" by auto
        with False show False by simp
      qed
      then have none: "filter (\<lambda>u. snd u = g) xs = []" by (auto simp: filter_empty_conv)
      have other: "(k, cs) \<in> set (group_runs xs) \<Longrightarrow> k \<noteq> g" for k cs
        using keys \<open>g \<notin> snd ` set xs\<close> by force
      from 2(3) have "(f = g \<and> ds = [d]) \<or> (f, ds) \<in> set (group_runs xs)" using False by (auto simp: Cons p)
      with none other 2(1) [OF sorted(1)] show ?thesis by auto
    qed
  qed
qed simp

lemma dict_of_runs:
  assumes "res_fold (\<lambda>(k, ds) acc. res_map (\<lambda>us. AList.update k us acc) (h ds)) gs acc = Inr d" "distinct (map fst gs)"
  shows "(\<forall>k. map_of gs k = None \<longrightarrow> map_of d k = map_of acc k) \<and>
    (\<forall>k ds. map_of gs k = Some ds \<longrightarrow> (\<exists>us. h ds = Inr us \<and> map_of d k = Some us))"
  using assms
proof (induction gs arbitrary: acc)
  case (Cons g gs)
  obtain k ds where g: "g = (k, ds)" by fastforce
  with Cons.prems obtain us where us: "h ds = Inr us"
    "res_fold (\<lambda>(k, ds) acc. res_map (\<lambda>us. AList.update k us acc) (h ds)) gs (AList.update k us acc) = Inr d"
    by (auto simp: res_elims split: sum.splits)
  from Cons.prems(2) g have "map_of gs k = None" by (simp add: map_of_eq_None_iff)
  with Cons.IH [OF us(2)] Cons.prems(2) us(1) g show ?case by (auto split: if_splits)
qed simp

definition users_of :: "string \<Rightarrow> string \<Rightarrow> user_fields \<Rightarrow> sig list res" where
  "users_of cwd f uses = res_list (decl_sig cwd) (map fst (filter (\<lambda>u. snd u = f) uses))"

lemma group_fields_users:
  assumes "group_fields cwd uses = Inr d"
  shows "f \<notin> snd ` set uses \<Longrightarrow> map_of d f = None"
    "f \<in> snd ` set uses \<Longrightarrow> \<exists>us. users_of cwd f uses = Inr us \<and> map_of d f = Some us"
proof -
  let ?xs = "sort_key snd uses" and ?gs = "group_runs (sort_key snd uses)"
  have keys: "set (map fst ?gs) = snd ` set uses" by (simp add: keys_group_runs)
  have "distinct (map fst ?gs)" by (simp add: keys_group_runs distinct_remdups_adj_sorted)
  note dict = dict_of_runs [OF assms [unfolded group_fields_def] this]
  show "map_of d f = None" if "f \<notin> snd ` set uses"
    using that dict keys by (metis map_of.simps(1) map_of_eq_None_iff set_map)
  show "\<exists>us. users_of cwd f uses = Inr us \<and> map_of d f = Some us" if "f \<in> snd ` set uses"
  proof -
    from that keys obtain ds where ds: "map_of ?gs f = Some ds" by (metis map_of_eq_None_iff not_None_eq set_map)
    then have "ds = map fst (filter (\<lambda>u. snd u = f) ?xs)" by (intro group_runs_sorted) (auto dest: map_of_SomeD)
    also have "\<dots> = map fst (filter (\<lambda>u. snd u = f) uses)" by (simp add: sort_key_stable)
    finally show ?thesis using dict ds by (auto simp: users_of_def)
  qed
qed

subsection \<open>The climb to a named field ends\<close>

definition climb_set :: "(nat \<Rightarrow> nat) \<Rightarrow> (nat, field_op) dict \<Rightarrow> nat \<Rightarrow> nat set" where
  "climb_set rank parent i = {t \<in> dom (map_of parent). rank t \<le> rank i}"

lemma finite_climb_set [simp]: "finite (climb_set rank parent i)"
  by (simp add: climb_set_def finite_dom_map_of)

lemma climb_parents_returns:
  assumes "\<And>t op. map_of parent t = Some op \<Longrightarrow> rank (fst op) < rank t"
  shows "card (climb_set rank parent (fst op)) < k \<Longrightarrow> climb_parents k parent op \<noteq> None"
proof (induction k arbitrary: op)
  case (Suc k)
  show ?case
  proof (cases "snd op \<noteq> None \<or> map_of parent (fst op) = None")
    case True
    then show ?thesis by auto
  next
    case False
    then obtain op' where op': "map_of parent (fst op) = Some op'" "snd op = None" by auto
    from assms [OF op'(1)] have lt: "rank (fst op') < rank (fst op)" .
    have "fst op \<in> climb_set rank parent (fst op)" using op'(1) by (auto simp: climb_set_def)
    moreover have "fst op \<notin> climb_set rank parent (fst op')" using lt by (simp add: climb_set_def)
    moreover have "climb_set rank parent (fst op') \<subseteq> climb_set rank parent (fst op)"
      using lt by (auto simp: climb_set_def)
    ultimately have "card (climb_set rank parent (fst op')) < card (climb_set rank parent (fst op))"
      by (intro psubset_card_mono) auto
    with Suc op' show ?thesis by simp
  qed
qed simp

lemma card_climb_set: "card (climb_set rank parent i) < Suc (length parent)"
proof -
  have "climb_set rank parent i \<subseteq> fst ` set parent" by (auto simp: climb_set_def dom_map_of_conv_image_fst)
  then have "card (climb_set rank parent i) \<le> card (fst ` set parent)" by (intro card_mono) auto
  also have "\<dots> \<le> length parent" by (metis card_image_le card_length le_trans List.finite_set)
  finally show ?thesis by simp
qed

text \<open>
  The walk of a statement visits a finite tree: some rank grows from a component reference to
  the one it refers to.
\<close>

definition tree_walk :: "(nat \<Rightarrow> nat) \<Rightarrow> gcc_op list \<Rightarrow> bool" where
  "tree_walk rank ops \<longleftrightarrow> (\<forall>i t f c. ComponentRef i (Some t) f c \<in> set ops \<longrightarrow> rank i < rank t)"

definition parents_ok :: "(nat \<Rightarrow> nat) \<Rightarrow> (nat, field_op) dict \<Rightarrow> bool" where
  "parents_ok rank parent \<longleftrightarrow> (\<forall>t op. map_of parent t = Some op \<longrightarrow> rank (fst op) < rank t)"

lemma relpath_error: "relpath cwd p s = Inl e \<Longrightarrow> e = ValueError"
  by (auto simp: relpath_def Let_def split: if_splits)

lemma decl_sig_error: "decl_sig cwd d = Inl e \<Longrightarrow> e = ValueError"
  by (cases "decl_relpath cwd d") (auto simp: decl_sig_def decl_relpath_def dest: relpath_error split: if_splits)

lemma name_of_error: "name_of n = Inl e \<Longrightarrow> e = AttributeError ''name''"
  by (cases n) auto

lemma mark_field_parents:
  assumes "parents_ok rank (fst s)" "tree_walk rank ops" "op \<in> set ops"
  shows "mark_public_field cwd cfg d op s = Inr s' \<Longrightarrow> parents_ok rank (fst s')"
    and "mark_public_field cwd cfg d op s \<noteq> Inl NonTermination"
proof -
  obtain parent pf where s: "s = (parent, pf)" by fastforce
  have "(mark_public_field cwd cfg d op s = Inr s' \<longrightarrow> parents_ok rank (fst s')) \<and>
    mark_public_field cwd cfg d op s \<noteq> Inl NonTermination"
  proof (cases op)
    case (ComponentRef i target field ctx)
    define par where "par = (case target of Some t \<Rightarrow> AList.update t (i, field) parent | None \<Rightarrow> parent)"
    have ok: "parents_ok rank par"
    proof (cases target)
      case None
      with assms(1) show ?thesis by (simp add: par_def s)
    next
      case (Some t)
      with assms(2,3) ComponentRef have "rank i < rank t" unfolding tree_walk_def by blast
      with assms(1) Some show ?thesis by (auto simp: par_def s parents_ok_def)
    qed
    then have "climb_parents (Suc (length par)) par (i, field) \<noteq> None"
      unfolding parents_ok_def by (intro climb_parents_returns [where rank = rank, OF _ card_climb_set]) blast
    then obtain j name where "climb_parents (Suc (length par)) par (i, field) = Some (j, name)" by auto
    then have "mark_public_field cwd cfg d op s =
        res_bind (relpath cwd (s_stub_file ctx) ''.'') (\<lambda>loc_file.
          Inr (par, if loc_file \<in> set (mod_hdrs cfg) \<and> s_name ctx \<noteq> Anonymous
                    then add_use ctx (d, or_unknown name) pf else pf))"
      by (simp add: mark_public_field_def s ComponentRef Let_def del: climb_parents.simps flip: par_def)
    with ok show ?thesis
      by (cases "relpath cwd (s_stub_file ctx) ''.''") (auto dest: relpath_error)
  qed (use assms(1) in \<open>auto simp: mark_public_field_def s\<close>)
  then show "mark_public_field cwd cfg d op s = Inr s' \<Longrightarrow> parents_ok rank (fst s')"
    and "mark_public_field cwd cfg d op s \<noteq> Inl NonTermination" by blast+
qed

lemma mark_stmt_returns:
  assumes "tree_walk rank (stmt_walk st)"
  shows "mark_stmt cwd cfg d st pf \<noteq> Inl NonTermination"
proof
  assume "mark_stmt cwd cfg d st pf = Inl NonTermination"
  then have "res_fold (mark_public_field cwd cfg d) (stmt_walk st) ([], pf) = Inl NonTermination"
    by (cases "res_fold (mark_public_field cwd cfg d) (stmt_walk st) ([], pf)") (auto simp: mark_stmt_def)
  then show False
  proof (rule res_fold_error [where I = "\<lambda>s. parents_ok rank (fst s)"])
    show "parents_ok rank (fst ([], pf))" by (simp add: parents_ok_def)
  qed (use mark_field_parents [OF _ assms] in blast)+
qed

lemma group_fields_returns: "group_fields cwd uses \<noteq> Inl NonTermination"
proof
  assume "group_fields cwd uses = Inl NonTermination"
  then show False unfolding group_fields_def
  proof (rule res_fold_error [where I = "\<lambda>_. True"])
    fix g acc
    assume "(\<lambda>(k, ds) acc. res_map (\<lambda>us. AList.update k us acc) (res_list (decl_sig cwd) ds)) g acc = Inl NonTermination"
    then obtain ds where "res_list (decl_sig cwd) ds = Inl NonTermination"
      by (cases g; cases "res_list (decl_sig cwd) (snd g)") auto
    from res_list_error [OF this] decl_sig_error show False by blast
  qed simp_all
qed

lemma struct_entry_returns: "struct_entry cwd su d \<noteq> Inl NonTermination"
  using group_fields_returns [of cwd "snd su"]
  by (cases su; cases "name_of (s_name (fst su))"; cases "group_fields cwd (snd su)")
    (auto simp: struct_entry_def dest: name_of_error)

lemma collect_struct_returns:
  assumes "\<And>n st. n \<in> set (u_nodes u) \<Longrightarrow> st \<in> set (each_stmt n) \<Longrightarrow> tree_walk rank (stmt_walk st)"
  shows "collect_struct cwd cfg u \<noteq> Inl NonTermination"
proof
  assume "collect_struct cwd cfg u = Inl NonTermination"
  then consider "res_fold (mark_node cwd cfg) (u_nodes u) [] = Inl NonTermination"
    | pf :: public_uses where "res_fold (struct_entry cwd) (map snd pf) [] = Inl NonTermination"
    unfolding collect_struct_def by (cases "res_fold (mark_node cwd cfg) (u_nodes u) []") auto
  then show False
  proof cases
    case 1
    then show False
    proof (rule res_fold_error [where I = "\<lambda>_. True"])
      fix n pf assume n: "n \<in> set (u_nodes u)" and "mark_node cwd cfg n pf = Inl NonTermination"
      then have "res_fold (mark_stmt cwd cfg (n_decl n)) (each_stmt n) pf = Inl NonTermination"
        by (auto simp: mark_node_def split: if_splits)
      then show False
        by (rule res_fold_error [where I = "\<lambda>_. True"]) (use mark_stmt_returns assms [OF n] in blast)+
    qed simp_all
  next
    case 2
    then show False
      by (rule res_fold_error [where I = "\<lambda>_. True"]) (use struct_entry_returns in blast)+
  qed
qed

subsection \<open>Field uses are recorded\<close>

definition has_use :: "nat \<Rightarrow> gcc_decl \<times> string \<Rightarrow> public_uses \<Rightarrow> bool" where
  "has_use k use pf \<longleftrightarrow> (\<exists>s us. map_of pf k = Some (s, us) \<and> use \<in> set us)"

definition stored :: "gcc_struct set \<Rightarrow> public_uses \<Rightarrow> bool" where
  "stored S pf \<longleftrightarrow> distinct (map fst pf) \<and>
     (\<forall>k s us. map_of pf k = Some (s, us) \<longrightarrow> s_id s = k \<and> s \<in> S \<and> s_name s \<noteq> Anonymous)"

text \<open>The structs that a unit accesses, and an access to a named field of a struct of a module header\<close>

definition unit_structs :: "gcc_unit \<Rightarrow> gcc_struct set" where
  "unit_structs u = {ctx. \<exists>n \<in> set (u_nodes u). \<exists>st \<in> set (each_stmt n). \<exists>i t f. ComponentRef i t f ctx \<in> set (stmt_walk st)}"

definition header_access :: "string \<Rightarrow> config \<Rightarrow> gcc_stmt \<Rightarrow> gcc_struct \<Rightarrow> string \<Rightarrow> bool" where
  "header_access cwd cfg st ctx f \<longleftrightarrow> f \<noteq> '''' \<and> s_name ctx \<noteq> Anonymous \<and>
     (\<exists>h. relpath cwd (s_stub_file ctx) ''.'' = Inr h \<and> h \<in> set (mod_hdrs cfg)) \<and>
     (\<exists>i t. ComponentRef i t (Some f) ctx \<in> set (stmt_walk st))"

lemma has_use_add [simp]:
  "has_use k use (add_use ctx use' pf) \<longleftrightarrow> has_use k use pf \<or> (k = s_id ctx \<and> use = use')"
proof (cases "map_of pf (s_id ctx)")
  case None
  then show ?thesis by (auto simp: has_use_def add_use_def Let_def)
next
  case (Some p)
  then show ?thesis by (cases p) (auto simp: has_use_def add_use_def Let_def)
qed

lemma stored_add:
  "stored S pf \<Longrightarrow> ctx \<in> S \<Longrightarrow> s_name ctx \<noteq> Anonymous \<Longrightarrow> stored S (add_use ctx use pf)"
  by (auto simp: stored_def add_use_def Let_def distinct_update split: option.splits)

lemma mark_field_adds:
  assumes "mark_public_field cwd cfg d op s = Inr s'"
  shows "snd s' = snd s \<or> (\<exists>i t f ctx g. op = ComponentRef i t f ctx \<and> s_name ctx \<noteq> Anonymous \<and>
    snd s' = add_use ctx (d, g) (snd s))"
  using assms by (cases s) (auto simp: mark_public_field_def Let_def res_elims split: gcc_op.splits option.splits if_splits prod.splits)

lemma mark_field_named:
  assumes "mark_public_field cwd cfg d (ComponentRef i t (Some f) ctx) s = Inr s'" "f \<noteq> ''''" "s_name ctx \<noteq> Anonymous"
    and "relpath cwd (s_stub_file ctx) ''.'' = Inr h" "h \<in> set (mod_hdrs cfg)"
  shows "snd s' = add_use ctx (d, f) (snd s)"
  using assms by (cases s) (auto simp: mark_public_field_def Let_def or_unknown_def)

lemma mark_stmt_keeps:
  assumes "mark_stmt cwd cfg d st pf = Inr pf'" "P pf"
    and "\<And>i t f ctx g pf. ComponentRef i t f ctx \<in> set (stmt_walk st) \<Longrightarrow> s_name ctx \<noteq> Anonymous \<Longrightarrow> P pf \<Longrightarrow> P (add_use ctx (d, g) pf)"
  shows "P pf'"
proof -
  from assms(1) obtain s' where s': "res_fold (mark_public_field cwd cfg d) (stmt_walk st) ([], pf) = Inr s'" "pf' = snd s'"
    by (auto simp: mark_stmt_def res_map_Inr_iff)
  have "P (snd s')"
  proof (rule res_fold_invariant [OF s'(1)])
    fix op s s1
    assume op: "op \<in> set (stmt_walk st)" and P: "P (snd s)" and run: "mark_public_field cwd cfg d op s = Inr s1"
    from mark_field_adds [OF run] show "P (snd s1)" using assms(3) P op by metis
  qed (simp add: assms(2))
  then show ?thesis by (simp add: s'(2))
qed

lemma mark_stmt_access:
  assumes "mark_stmt cwd cfg d st pf = Inr pf'" "header_access cwd cfg st ctx f"
  shows "has_use (s_id ctx) (d, f) pf'"
proof -
  from assms(1) obtain s' where s': "res_fold (mark_public_field cwd cfg d) (stmt_walk st) ([], pf) = Inr s'" "pf' = snd s'"
    by (auto simp: mark_stmt_def res_map_Inr_iff)
  from assms(2) obtain i t h where acc: "f \<noteq> ''''" "s_name ctx \<noteq> Anonymous" "relpath cwd (s_stub_file ctx) ''.'' = Inr h"
    "h \<in> set (mod_hdrs cfg)" "ComponentRef i t (Some f) ctx \<in> set (stmt_walk st)" by (auto simp: header_access_def)
  have "has_use (s_id ctx) (d, f) (snd s')"
  proof (rule res_fold_reaches [OF acc(5) s'(1)])
    fix s s1 assume "mark_public_field cwd cfg d (ComponentRef i t (Some f) ctx) s = Inr s1"
    from mark_field_named [OF this acc(1-4)] show "has_use (s_id ctx) (d, f) (snd s1)" by simp
  next
    fix op s s1 assume "mark_public_field cwd cfg d op s = Inr s1" "has_use (s_id ctx) (d, f) (snd s)"
    with mark_field_adds [OF this(1)] show "has_use (s_id ctx) (d, f) (snd s1)" by auto
  qed
  then show ?thesis by (simp add: s'(2))
qed

lemma mark_node_keeps:
  assumes "mark_node cwd cfg n pf = Inr pf'" "P pf"
    and "\<And>st i t f ctx g pf. st \<in> set (each_stmt n) \<Longrightarrow> ComponentRef i t f ctx \<in> set (stmt_walk st) \<Longrightarrow>
      s_name ctx \<noteq> Anonymous \<Longrightarrow> P pf \<Longrightarrow> P (add_use ctx (n_decl n, g) pf)"
  shows "P pf'"
proof (cases "d_has_body (n_decl n)")
  case True
  with assms(1) have "res_fold (mark_stmt cwd cfg (n_decl n)) (each_stmt n) pf = Inr pf'" by (simp add: mark_node_def)
  then show ?thesis
    using assms(2) by (rule res_fold_invariant) (rule mark_stmt_keeps [where P = P], assumption, assumption, rule assms(3))
qed (use assms in \<open>simp add: mark_node_def\<close>)

lemma mark_node_access:
  assumes "mark_node cwd cfg n pf = Inr pf'" "d_has_body (n_decl n)" "st \<in> set (each_stmt n)" "header_access cwd cfg st ctx f"
  shows "has_use (s_id ctx) (n_decl n, f) pf'"
proof -
  from assms(1,2) have run: "res_fold (mark_stmt cwd cfg (n_decl n)) (each_stmt n) pf = Inr pf'" by (simp add: mark_node_def)
  show ?thesis
  proof (rule res_fold_reaches [OF assms(3) run])
    fix s s1 assume "mark_stmt cwd cfg (n_decl n) st s = Inr s1"
    then show "has_use (s_id ctx) (n_decl n, f) s1" using assms(4) by (rule mark_stmt_access)
  next
    fix y s s1 assume "mark_stmt cwd cfg (n_decl n) y s = Inr s1" "has_use (s_id ctx) (n_decl n, f) s"
    then show "has_use (s_id ctx) (n_decl n, f) s1" by (rule mark_stmt_keeps) simp
  qed
qed

lemma unit_uses:
  assumes run: "res_fold (mark_node cwd cfg) (u_nodes u) [] = Inr pf"
  shows "stored (unit_structs u) pf"
    "n \<in> set (u_nodes u) \<Longrightarrow> d_has_body (n_decl n) \<Longrightarrow> st \<in> set (each_stmt n) \<Longrightarrow> header_access cwd cfg st ctx f \<Longrightarrow>
      has_use (s_id ctx) (n_decl n, f) pf"
proof -
  show "stored (unit_structs u) pf"
  proof (rule res_fold_invariant [OF run])
    fix n pf pf' assume n: "n \<in> set (u_nodes u)" and pf: "stored (unit_structs u) pf" "mark_node cwd cfg n pf = Inr pf'"
    show "stored (unit_structs u) pf'"
      using pf(2,1) by (rule mark_node_keeps) (rule stored_add, assumption, use n in \<open>unfold unit_structs_def, blast+\<close>)
  qed (simp add: stored_def)
  assume acc: "n \<in> set (u_nodes u)" "d_has_body (n_decl n)" "st \<in> set (each_stmt n)" "header_access cwd cfg st ctx f"
  show "has_use (s_id ctx) (n_decl n, f) pf"
  proof (rule res_fold_reaches [OF acc(1) run])
    fix s s1 assume "mark_node cwd cfg n s = Inr s1"
    then show "has_use (s_id ctx) (n_decl n, f) s1" using acc(2-4) by (rule mark_node_access)
  next
    fix y s s1 assume "mark_node cwd cfg y s = Inr s1" "has_use (s_id ctx) (n_decl n, f) s"
    then show "has_use (s_id ctx) (n_decl n, f) s1" by (rule mark_node_keeps) simp
  qed
qed

text \<open>Structs with a name are told apart by it, and by their identity.\<close>

definition structs_named :: "gcc_struct set \<Rightarrow> bool" where
  "structs_named S \<longleftrightarrow> (\<forall>s \<in> S. \<forall>s' \<in> S. name_of (s_name s) = name_of (s_name s') \<or> s_id s = s_id s' \<longrightarrow> s = s')"

lemma name_of_named: "s_name s \<noteq> Anonymous \<Longrightarrow> \<exists>name. name_of (s_name s) = Inr name"
  by (cases "s_name s") auto

lemma struct_entry_Inr:
  "struct_entry cwd (s, uses) d = Inr d' \<longleftrightarrow> (\<exists>name pf. name_of (s_name s) = Inr name \<and> group_fields cwd uses = Inr pf \<and>
     d' = AList.update name \<lparr>all_fields = filter (\<lambda>f. f \<noteq> '''') (List.map_filter id (s_fields s)), public_fields = pf\<rparr> d)"
  by (auto simp: struct_entry_def res_elims)

definition entry_of :: "string \<Rightarrow> gcc_struct \<Rightarrow> user_fields \<Rightarrow> struct_meta \<Rightarrow> bool" where
  "entry_of cwd s uses sm \<longleftrightarrow> all_fields sm = filter (\<lambda>f. f \<noteq> '''') (List.map_filter id (s_fields s)) \<and>
     group_fields cwd uses = Inr (public_fields sm)"

lemma struct_entry_adds:
  assumes "struct_entry cwd (s, uses) d = Inr d'" "name_of (s_name s) = Inr name"
  shows "\<exists>sm. entry_of cwd s uses sm \<and> d' = AList.update name sm d"
proof -
  let ?fields = "filter (\<lambda>f. f \<noteq> '''') (List.map_filter id (s_fields s))"
  from assms obtain pf where pf: "group_fields cwd uses = Inr pf"
    "d' = AList.update name \<lparr>all_fields = ?fields, public_fields = pf\<rparr> d" by (auto simp: struct_entry_Inr)
  have "entry_of cwd s uses \<lparr>all_fields = ?fields, public_fields = pf\<rparr>" by (simp add: entry_of_def pf(1))
  with pf(2) show ?thesis by blast
qed

lemma struct_entries:
  assumes entries: "res_fold (struct_entry cwd) (map snd pf) [] = Inr structs"
    and stored: "stored S pf" and named: "structs_named {s \<in> S. s_name s \<noteq> Anonymous}"
    and ctx: "map_of pf k = Some (ctx, us)" "name_of (s_name ctx) = Inr name"
  shows "\<exists>sm. entry_of cwd ctx us sm \<and> map_of structs name = Some sm"
proof (rule res_fold_reaches [OF _ entries])
  show "(ctx, us) \<in> set (map snd pf)" using map_of_SomeD [OF ctx(1)] by force
next
  fix d d' assume "struct_entry cwd (ctx, us) d = Inr d'"
  from struct_entry_adds [OF this ctx(2)] show "\<exists>sm. entry_of cwd ctx us sm \<and> map_of d' name = Some sm" by auto
next
  fix e d d'
  assume e: "e \<in> set (map snd pf)" and step: "struct_entry cwd e d = Inr d'"
    and old: "\<exists>sm. entry_of cwd ctx us sm \<and> map_of d name = Some sm"
  obtain s uses where e_def: "e = (s, uses)" by (cases e)
  with e obtain l where "(l, s, uses) \<in> set pf" by auto
  then have l: "map_of pf l = Some (s, uses)" using stored by (auto simp: stored_def)
  have in_S: "s \<in> {s \<in> S. s_name s \<noteq> Anonymous}" "s_id s = l" "ctx \<in> {s \<in> S. s_name s \<noteq> Anonymous}" "s_id ctx = k"
    using stored l ctx(1) unfolding stored_def by blast+
  from step [unfolded e_def struct_entry_Inr] obtain name' where name': "name_of (s_name s) = Inr name'" by blast
  from struct_entry_adds [OF step [unfolded e_def] this] obtain sm where
    sm: "entry_of cwd s uses sm" "d' = AList.update name' sm d" by blast
  show "\<exists>sm. entry_of cwd ctx us sm \<and> map_of d' name = Some sm"
  proof (cases "name' = name")
    case True
    with name' ctx(2) have "name_of (s_name s) = name_of (s_name ctx)" by simp
    with in_S named have "s = ctx" unfolding structs_named_def by blast
    moreover from this l in_S ctx(1) have "uses = us" by simp
    ultimately show ?thesis using sm True by auto
  next
    case False
    with sm(2) old show ?thesis by auto
  qed
qed

lemma collect_struct_entry:
  assumes run: "collect_struct cwd cfg u = Inr structs"
    and named: "structs_named {s \<in> unit_structs u. s_name s \<noteq> Anonymous}"
    and n: "n \<in> set (u_nodes u)" "d_has_body (n_decl n)" "st \<in> set (each_stmt n)"
    and acc: "header_access cwd cfg st ctx f"
  shows "\<exists>name sm us s. name_of (s_name ctx) = Inr name \<and> map_of structs name = Some sm \<and>
    map_of (public_fields sm) f = Some us \<and> decl_sig cwd (n_decl n) = Inr s \<and> s \<in> set us"
proof -
  let ?S = "{s \<in> unit_structs u. s_name s \<noteq> Anonymous}"
  from run obtain pf where pf: "res_fold (mark_node cwd cfg) (u_nodes u) [] = Inr pf"
    and entries: "res_fold (struct_entry cwd) (map snd pf) [] = Inr structs"
    by (auto simp: collect_struct_def res_elims)
  note stored = unit_uses(1) [OF pf]
  from unit_uses(2) [OF pf n acc] obtain c us where c: "map_of pf (s_id ctx) = Some (c, us)" "(n_decl n, f) \<in> set us"
    by (auto simp: has_use_def)
  have ctx: "ctx \<in> ?S" using n acc unfolding unit_structs_def header_access_def by blast
  from stored c(1) have "c \<in> ?S" "s_id c = s_id ctx" unfolding stored_def by blast+
  with ctx named have "c = ctx" unfolding structs_named_def by blast
  obtain name where name: "name_of (s_name ctx) = Inr name" using ctx name_of_named by blast
  from struct_entries [OF entries stored named c(1) [unfolded \<open>c = ctx\<close>] name]
  obtain sm where sm: "group_fields cwd us = Inr (public_fields sm)" "map_of structs name = Some sm"
    by (auto simp: entry_of_def)
  have "f \<in> snd ` set us" using c(2) by force
  from group_fields_users(2) [OF sm(1) this] obtain sigs where
    sigs: "users_of cwd f us = Inr sigs" "map_of (public_fields sm) f = Some sigs" by blast
  have "n_decl n \<in> set (map fst (filter (\<lambda>v. snd v = f) us))" using c(2) by force
  from res_list_elem [OF sigs(1) [unfolded users_of_def] this]
  obtain s where "decl_sig cwd (n_decl n) = Inr s" "s \<in> set sigs" by blast
  with name sm(2) sigs(2) show ?thesis by blast
qed

end
