(* ===== verification/Plugin.thy ===== *)
theory Plugin
  imports Example StructUses
begin

text \<open>
  What the compiler plugin promises, unit by unit: well-formed functions and interfaces, the
  exact edges and callbacks, the end of the search for field names, the repair of printed
  declarations, and the one kind of variable it fails on.
\<close>

text \<open>C21: the functions of a unit are well formed: the signature is the name and the file, a
  declaration string is present exactly if the unit is a source file of the module or a
  sidecar, and it declares the function; the interfaces are functions of the unit with a
  configured name, and only of module source files.\<close>

theorem collected_functions_wf:
  assumes "collect_fn cwd cfg u = Inr (fns, intfs)"
  shows "(\<forall>f \<in> set fns. fn_signature f = (fn_name f, fn_file f) \<and>
      (fn_decl_str f \<noteq> None \<longleftrightarrow> u_main_input u \<in> set (mod_srcs cfg @ sdcr_srcs cfg)) \<and>
      (\<forall>d. fn_decl_str f = Some d \<longrightarrow> ds_fn d = fn_name f)) \<and>
    (\<forall>s \<in> set intfs. u_main_input u \<in> set (mod_srcs cfg) \<and> is_interface_name cfg (fst s) \<and>
      (\<exists>f \<in> set fns. fn_signature f = s))"
proof -
  note elems = collect_fn_elems [OF assms]
  have "fn_wf cfg (u_main_input u) f" if "f \<in> set fns" for f
    using that elems(1) collect_fn_node_wf(1) by blast
  moreover have "u_main_input u \<in> set (mod_srcs cfg) \<and> is_interface_name cfg (fst s) \<and> (\<exists>f \<in> set fns. fn_signature f = s)"
    if intf: "s \<in> set intfs" for s
  proof -
    from intf elems(2) obtain n f where n: "n \<in> set (u_nodes u)"
      "collect_fn_node cwd cfg (u_main_input u) n = Inr (Some (f, Some s))" by blast
    then have "f \<in> set fns" using elems(1) by blast
    with collect_fn_node_wf [OF n(2)] show ?thesis unfolding fn_wf_def by fastforce
  qed
  ultimately show ?thesis unfolding fn_wf_def by blast
qed

theorem collected_functions_wf_witness:
  "\<exists>f \<in> set (m_fn ex_core). fn_signature f = (''pick'', CORE) \<and> fn_decl_str f \<noteq> None"
proof -
  have "u_main_input ex_unit \<in> set (mod_srcs ex_cfg @ sdcr_srcs ex_cfg)" by code_simp
  with collected_functions_wf [OF collect_info_run(1) [OF ex_collected]]
  have "fn_decl_str (ex_fn ''pick'' CORE False 0) \<noteq> None" by (auto simp: ex_core_def)
  then show ?thesis by (auto simp: ex_core_def ex_fn_def)
qed

text \<open>C23: the edges of a unit are exactly the calls with a known callee in the bodies of functions
  outside the init section, and one edge for each alias to the function it stands for.\<close>

theorem collected_edges_spec:
  assumes "collect_edge cwd u = Inr es"
  shows "set es = {e. \<exists>n \<in> set (u_nodes u). decl_in_section (n_decl n) ''.init.text'' = Inr False \<and>
    decl_sig cwd (n_decl n) = Inr (re_from e) \<and>
    (if d_has_body (n_decl n)
     then \<exists>fd rhs w. GimpleCall (Some fd) rhs w \<in> set (each_stmt n) \<and> decl_sig cwd fd = Inr (re_to e)
     else \<exists>real_name. alias_target (n_decl n) = Inr real_name \<and> re_to e = (real_name, ''?''))}"
  unfolding set_collect_edge [OF assms] edge_of_def ..

theorem collected_edges_spec_witness:
  "\<exists>es. collect_edge ''/k'' ex_unit = Inr es \<and> \<lparr>re_from = (''pick'', CORE), re_to = (''memcpy'', ''?'')\<rparr> \<in> set es"
proof (intro exI conjI)
  show run: "collect_edge ''/k'' ex_unit = Inr (m_edge ex_core)" by (rule collect_info_run(4) [OF ex_collected])
  let ?n = "ex_node ex_pick [OtherStmt [ComponentRef 1 None (Some ''nr'') ex_rq, ComponentRef 2 None (Some ''lock'') ex_rq],
      ex_call ex_helper, ex_call (ex_decl ''memcpy'' ''include/string.h'' False True 0)]"
  have "decl_sig ''/k'' (n_decl ?n) = Inr (''pick'', CORE)"
    "decl_sig ''/k'' (ex_decl ''memcpy'' ''include/string.h'' False True 0) = Inr (''memcpy'', ''?'')" by code_simp+
  then show "\<lparr>re_from = (''pick'', CORE), re_to = (''memcpy'', ''?'')\<rparr> \<in> set (m_edge ex_core)"
    unfolding collected_edges_spec [OF run]
    by (intro CollectI bexI [of _ ?n])
      (auto simp: ex_unit_def ex_node_def ex_pick_def ex_decl_def decl_in_section_def ex_call_def each_stmt_def map_filter_simps)
qed

text \<open>C24: the callbacks of a unit are exactly the functions outside the init section whose address
  is taken by a function body (by a statement that is no call, or by an argument of a call,
  never by the call itself) or by the initial value of a variable that is not skipped. The
  skipped variables are the scheduler classes and those in the section
  \<open>.discard.addressable\<close>: a function whose address only they take is no callback.\<close>

theorem collected_callbacks_spec:
  assumes "collect_callback cwd u = Inr cbs"
  shows "s \<in> set cbs \<longleftrightarrow>
    (\<exists>d. (body_takes u d \<or>
        (\<exists>v \<in> set (u_vars u). init_takes v d \<and>
          \<not> (type_tag (v_decl v) = Inr ''sched_class'' \<or>
             decl_in_section (v_decl v) ''.discard.addressable'' = Inr True))) \<and>
      decl_in_section d ''.init.text'' = Inr False \<and> decl_sig cwd d = Inr s)"
  unfolding skipped_variable_def [symmetric] by (rule collect_callback_takes [OF assms])

theorem collected_callbacks_spec_witness:
  "\<exists>cbs d. collect_callback ''/k'' ex_unit = Inr cbs \<and> (''tick'', CORE) \<in> set cbs \<and>
    decl_in_section d ''.init.text'' = Inr False \<and> decl_sig ''/k'' d = Inr (''tick'', CORE)"
proof -
  note run = collect_info_run(2) [OF ex_collected]
  have "(''tick'', CORE) \<in> set (m_callback ex_core)" by (simp add: ex_core_def)
  with collected_callbacks_spec [OF run] run show ?thesis by blast
qed

text \<open>C28: the search for the named field of an anonymous struct ends: collecting the struct fields
  of a unit never runs forever, whatever the nesting of the component references, as long as
  they form a finite tree.\<close>

theorem collect_struct_terminates:
  assumes "\<forall>n \<in> set (u_nodes u). \<forall>st \<in> set (each_stmt n). \<forall>i t f c.
    ComponentRef i (Some t) f c \<in> set (stmt_walk st) \<longrightarrow> rank i < (rank t :: nat)"
  shows "collect_struct cwd cfg u \<noteq> Inl NonTermination"
  using assms by (intro collect_struct_returns [where rank = rank]) (auto simp: tree_walk_def)

definition ex_nested :: gcc_unit where
  "ex_nested = \<lparr>u_main_input = CORE,
     u_nodes = [ex_node ex_pick [OtherStmt [ComponentRef 1 (Some 2) (Some ''nr'') ex_rq, ComponentRef 2 None None ex_rq]]],
     u_vars = []\<rparr>"

theorem collect_struct_terminates_witness:
  "collect_struct ''/k'' ex_cfg ex_nested \<noteq> Inl NonTermination"
  by (rule collect_struct_terminates [where rank = id])
    (auto simp: ex_nested_def ex_node_def each_stmt_def map_filter_simps)

text \<open>The repair of pointers to arrays: \<open>base[d] *name\<close> becomes \<open>base (*name)[d]\<close>, with the
  text before and after it kept.\<close>

theorem array_pointer_spec:
  assumes "list_all is_digit d" "list_all is_space ws" "NL \<notin> set base"
    and "CHR ''['' \<notin> set name \<union> set rest" "list_all (\<lambda>c. c \<notin> set '',);'') name"
    and "name = [] \<or> \<not> is_space (hd name)" "rest = [] \<or> hd rest \<in> set '',);''"
  shows "array_pointer (base @ ''['' @ d @ ''] *'' @ ws @ name @ rest) = base @ '' (*'' @ name @ '')['' @ d @ '']'' @ rest"
  using assms by (intro array_pointer_text) (simp_all add: array_ptr_text_def)

theorem array_pointer_spec_witness:
  "array_pointer ''struct cpumask[1] *doms_cur;'' = ''struct cpumask (*doms_cur)[1];''"
  using array_pointer_spec [of "''1''" "[]" "''struct cpumask''" "''doms_cur''" "'';''"]
  by (simp add: is_digit_def is_space_def whitespace_def)

text \<open>C37: a global variable of an anonymous enumeration type in a source file of the module makes
  the plugin fail on the whole unit: the repair of enumeration types reads the name of a
  type that has none.\<close>

theorem anonymous_enum_fails:
  assumes "v \<in> set (u_vars u)" "v_located v" "d_in_unit (v_decl v)"
    and "d_type (v_decl v) = EnumeralType Anonymous l" "d_file (v_decl v) \<in> set (mod_srcs cfg @ sdcr_srcs cfg)"
  shows "\<exists>e. collect_info cwd cfg ''*free_lang_data'' u = Inl e"
proof -
  have "collect_info cwd cfg ''*free_lang_data'' u \<noteq> Inr (Some m)" for m
  proof
    assume "collect_info cwd cfg ''*free_lang_data'' u = Inr (Some m)"
    from collect_info_run(5) [OF this] have "collect_var cwd cfg u = Inr (m_var m)" .
    from res_concat_each [OF this [unfolded collect_var_def] assms(1)] assms(2,3)
    obtain p where "var_properties cwd cfg (v_decl v) = Inr p" by (auto simp: res_map_Inr_iff)
    with assms(4,5) show False by (auto simp: var_properties_def Let_def res_elims gcc_fix_def enum_type_name_def)
  qed
  moreover have "collect_info cwd cfg ''*free_lang_data'' u \<noteq> Inr None" by (auto simp: collect_info_def res_elims)
  ultimately show ?thesis by (cases "collect_info cwd cfg ''*free_lang_data'' u") (metis, metis option.exhaust)
qed

theorem anonymous_enum_fails_witness:
  "\<exists>e. collect_info ''/k'' ex_cfg ''*free_lang_data'' (ex_unit\<lparr>u_vars :=
     [\<lparr>v_decl = (ex_decl ''mode'' CORE False True 0)\<lparr>d_type := EnumeralType Anonymous (1, 1)\<rparr>, v_located = True, v_initial = None\<rparr>]\<rparr>) = Inl e"
  by (rule anonymous_enum_fails [where l = "(1, 1)"])
    (auto simp: ex_decl_def ex_cfg_def mod_srcs_def CORE_def ends_with_def)

end
