(* ===== verification/Cli.thy ===== *)
theory Cli
  imports Extract
begin

text \<open>
  \<open>cli.py\<close>: the kernel version and the choice of the configuration directory, the file
  lists, and the commands. What the operating system and the tools answer (the output of
  \<open>awk\<close>, the matches of \<open>glob\<close>, the existence of a file, the loaded \<open>boundary.yaml\<close>, whether
  a command returns or raises) are parameters; what the commands do to the system is the list
  of the actions they run, up to the first one that fails.
\<close>

subsection \<open>Logging\<close>

text \<open>
  The handler \<open>ShutdownHandler\<close> raises on a record of the level \<open>CRITICAL\<close> or above, so
  \<open>logging.fatal\<close> does not return.
\<close>

definition CRITICAL :: nat where "CRITICAL = 50"

definition emit :: "nat \<Rightarrow> unit res" where
  "emit levelno = (if levelno \<ge> CRITICAL then Inl LoggedFatal else Inr ())"

definition fatal_if :: "bool \<Rightarrow> unit res" where
  "fatal_if b = (if b then emit CRITICAL else Inr ())"

lemma fatal_if_simps [simp]: "fatal_if b = (if b then Inl LoggedFatal else Inr ())"
  by (simp add: fatal_if_def emit_def)

text \<open>\<open>glob\<close> joins the pattern to the directory; \<open>sh\<close> lists the matches.\<close>

definition glob_at :: "(string \<Rightarrow> string list) \<Rightarrow> string \<Rightarrow> string \<Rightarrow> string list" where
  "glob_at glob pattern cwd = glob (path_join cwd pattern)"

subsection \<open>Kernel version\<close>

text \<open>The answers of the four calls \<open>awk -F= '/^NAME/{print $2}' makefile\<close>, if none of them fails\<close>

record makefile_vars =
  VERSION :: string
  PATCHLEVEL :: string
  SUBLEVEL :: string
  EXTRAVERSION :: string

record kernel_version =
  KVER :: string
  major :: string
  uname_r :: string
  KREL :: "string option"

definition strip_arch :: "string \<Rightarrow> string option" where
  "strip_arch krel =
     fold (\<lambda>arch attr. case find_at krel arch of None \<Rightarrow> attr | Some idx \<Rightarrow> Some (take idx krel))
       [''.x86_64'', ''.aarch64''] None"

definition get_kernel_version :: "makefile_vars \<Rightarrow> kernel_version res" where
  "get_kernel_version m =
     (let version = strip (VERSION m); patchlevel = strip (PATCHLEVEL m); sublevel = strip (SUBLEVEL m);
          kver = version @ ''.'' @ patchlevel @ ''.'' @ sublevel;
          krel = strip_chars ('' -'' @ [NL]) (EXTRAVERSION m)
      in res_bind (fatal_if (krel = [])) (\<lambda>_.
           Inr \<lparr>KVER = kver, major = version @ ''.'' @ patchlevel, uname_r = kver @ ''-'' @ krel,
                KREL = strip_arch krel\<rparr>))"

subsection \<open>Configuration directory\<close>

text \<open>The loop of \<open>common_prefix_len\<close>: \<open>i\<close> is unbound until the first pair of characters.\<close>

fun prefix_loop :: "nat \<Rightarrow> (char \<times> char) list \<Rightarrow> nat option \<Rightarrow> nat option" where
  "prefix_loop n [] i = i"
| "prefix_loop n ((a, b) # ps) i = (if a \<noteq> b then Some n else prefix_loop (Suc n) ps (Some n))"

definition common_prefix_len :: "string \<Rightarrow> string \<Rightarrow> nat res" where
  "common_prefix_len s1 s2 =
     (case prefix_loop 0 (zip s1 s2) None of None \<Rightarrow> Inl UnboundLocalError | Some i \<Rightarrow> Inr i)"

definition max_of :: "'a::linorder list \<Rightarrow> 'a" where
  "max_of xs = fold max (tl xs) (hd xs)"

definition get_config_dir :: "string \<Rightarrow> string list \<Rightarrow> string res" where
  "get_config_dir uname paths =
     (let candidates = map basename paths
      in res_bind (fatal_if (candidates = [])) (\<lambda>_.
           let candidates = rev (sort candidates)
           in res_bind (res_list (common_prefix_len uname) candidates) (\<lambda>lens.
                Inr (candidates ! snd (max_of (zip lens [0..<length candidates]))))))"

subsection \<open>The state of a command\<close>

text \<open>
  \<open>boundary.yaml\<close> as the command line reads it: a key may be missing, and \<open>sidecar\<close> may be
  empty.
\<close>

record cli_config =
  c_mod_files :: "string list option"
  c_sidecar :: "sig list option option"

record plugsched =
  plugsched_path :: string
  work_dir :: string
  vmlinux :: string
  makefile :: string
  mod_path :: string
  tmp_dir :: string
  version :: kernel_version
  config_dir :: string
  file_mapping :: "(string \<times> string) list"
  threads :: nat
  cli_mod_files :: "string list"
  cli_sdcr_srcs :: "string list"
  sdcr_objs :: "string list"
  mod_objs :: "string list"

definition key :: "string \<Rightarrow> 'a option \<Rightarrow> 'a res" where
  "key k v = (case v of None \<Rightarrow> Inl (KeyError k) | Some x \<Rightarrow> Inr x)"

definition file_mapping_of :: "string \<Rightarrow> string \<Rightarrow> string \<Rightarrow> (string \<times> string) list" where
  "file_mapping_of conf tmp md =
     [(conf @ ''/*'', tmp), (''boundary/*.py'', tmp), (''tools/symbol_resolve'', tmp),
      (''tools/springboard_search.sh'', tmp), (''src/Makefile.plugsched'', tmp), (''module-contrib/*'', tmp),
      (''src/*.[ch]'', md), (''src/Makefile'', md), (''src/scheduler.lds'', md), (''src/.gitignore'', ''./'')]"

definition new_plugsched ::
  "string \<Rightarrow> string \<Rightarrow> (string \<Rightarrow> makefile_vars res) \<Rightarrow> (string \<Rightarrow> string list) \<Rightarrow> (string \<Rightarrow> unit res) \<Rightarrow>
   (string \<Rightarrow> cli_config res) \<Rightarrow> nat \<Rightarrow> string \<Rightarrow> string \<Rightarrow> string \<Rightarrow> plugsched res" where
  "new_plugsched cwd self awk glob lookup load cpus wd vm mk =
     (let wd = abspath cwd wd; vm = abspath cwd vm; mk = abspath cwd mk;
          md = path_join wd ''kernel/sched/mod/''; tmp = path_join wd ''working/''
      in res_bind (awk mk) (\<lambda>vars.
         res_bind (get_kernel_version vars) (\<lambda>ver.
         res_bind (get_config_dir (uname_r ver) (glob_at glob (self @ ''/configs/'' @ major ver @ ''*'') ''.'')) (\<lambda>cand.
         res_bind (lookup (self @ ''/tools/springboard_search.sh'')) (\<lambda>_.
           let conf = path_join (path_join self ''configs/'') cand
           in res_bind (load (path_join conf ''boundary.yaml'')) (\<lambda>cfg.
              res_bind (key ''mod_files'' (c_mod_files cfg)) (\<lambda>files.
              res_bind (key ''sidecar'' (c_sidecar cfg)) (\<lambda>sdcr.
                let srcs = map snd (case sdcr of None \<Rightarrow> [] | Some s \<Rightarrow> s)
                in Inr \<lparr>plugsched_path = self, work_dir = wd, vmlinux = vm, makefile = mk, mod_path = md,
                        tmp_dir = tmp, version = ver, config_dir = conf,
                        file_mapping = file_mapping_of conf tmp md, threads = cpus, cli_mod_files = files,
                        cli_sdcr_srcs = srcs, sdcr_objs = map (replace ''.c'' ''.o'') srcs,
                        mod_objs = map (\<lambda>f. f @ ''.extract'') (files @ srcs)\<rparr>))))))))"

subsection \<open>Actions\<close>

text \<open>
  A command that \<open>cli.py\<close> runs through \<open>sh\<close>, with the directory it runs in (\<open>''.''\<close> is the
  directory of the process), and the change of the environment. What a command does to the
  system is not modelled; what \<open>cli.py\<close> sees of the system, after the actions run so far, is
  the record \<open>world\<close>: whether a command returns or raises (\<open>sh\<close> raises when a command cannot be
  found or run, or exits with an error), which files exist, can be read or be opened to be
  written, the matches of a pattern, and the path without symbolic links.
\<close>

datatype tool =
    Rsync string string
  | Mkdir "string list"
  | Cp "string list" string
  | Remove string
  | Patch string
  | OldDefConfig
  | Make "string list" string nat
  | SpringboardSearch string string
  | RpmBuild "(string \<times> string) list"
  | RpmPrep string string

datatype action = Run string tool | SetEnv string string

record world =
  sh_run :: "action list \<Rightarrow> string \<Rightarrow> tool \<Rightarrow> unit res"
  sh_lookup :: "action list \<Rightarrow> string \<Rightarrow> unit res"
  sh_glob :: "action list \<Rightarrow> string \<Rightarrow> string list"
  path_exists :: "action list \<Rightarrow> string \<Rightarrow> bool"
  read_lines :: "action list \<Rightarrow> string \<Rightarrow> string list res"
  open_append :: "action list \<Rightarrow> string \<Rightarrow> unit res"
  realpath :: "action list \<Rightarrow> string \<Rightarrow> string"
  sys_version :: string

text \<open>
  A program extends the list of the actions run, and returns or raises. The actions of a
  program that raises remain, the one that failed is the last of them.
\<close>

type_synonym prog = "action list \<Rightarrow> action list \<times> unit res"

definition run_tool :: "world \<Rightarrow> string \<Rightarrow> tool \<Rightarrow> prog" where
  "run_tool w d t tr = (tr @ [Run d t], sh_run w tr d t)"

definition and_then :: "prog \<Rightarrow> prog \<Rightarrow> prog" where
  "and_then f g tr = (case f tr of (tr', Inl e) \<Rightarrow> (tr', Inl e) | (tr', Inr _) \<Rightarrow> g tr')"

fun in_order :: "prog list \<Rightarrow> prog" where
  "in_order [] = (\<lambda>tr. (tr, Inr ()))"
| "in_order (f # fs) = and_then f (in_order fs)"

text \<open>An expression that may raise, and a program that uses its value\<close>

definition with_value :: "(action list \<Rightarrow> 'a res) \<Rightarrow> ('a \<Rightarrow> prog) \<Rightarrow> prog" where
  "with_value e f tr = (case e tr of Inl err \<Rightarrow> (tr, Inl err) | Inr v \<Rightarrow> f v tr)"

definition check :: "(action list \<Rightarrow> unit res) \<Rightarrow> prog" where
  "check e tr = (tr, e tr)"

subsection \<open>Initialisation\<close>

definition apply_patch :: "world \<Rightarrow> plugsched \<Rightarrow> string \<Rightarrow> prog" where
  "apply_patch w p f tr =
     (let path = path_join (tmp_dir p) f
      in if path_exists w tr path then run_tool w (work_dir p) (Patch path) tr else (tr, Inr ()))"

definition make :: "world \<Rightarrow> plugsched \<Rightarrow> string \<Rightarrow> string list \<Rightarrow> (string \<times> string) list \<Rightarrow> prog" where
  "make w p stage objs kwargs =
     run_tool w (work_dir p)
       (Make ([stage, ''objs='' @ join '' '' objs] @ map (\<lambda>(k, v). k @ ''='' @ v) kwargs)
          (path_join (tmp_dir p) ''Makefile.plugsched'') (threads p))"

definition stage_args :: "plugsched \<Rightarrow> (string \<times> string) list" where
  "stage_args p = [(''plugsched_tmpdir'', tmp_dir p), (''plugsched_modpath'', mod_path p)]"

definition extract_objs :: "world \<Rightarrow> plugsched \<Rightarrow> prog" where
  "extract_objs w p = in_order
     [run_tool w (work_dir p) OldDefConfig,
      make w p ''collect'' [] (stage_args p),
      make w p ''analyze'' [] (stage_args p),
      make w p ''extract'' (mod_objs p) (stage_args p)]"

definition copy_mapped :: "world \<Rightarrow> plugsched \<Rightarrow> string \<times> string \<Rightarrow> prog" where
  "copy_mapped w p = (\<lambda>(f, t) tr. run_tool w (work_dir p) (Cp (glob_at (sh_glob w tr) f (plugsched_path p)) t) tr)"

definition create_sandbox :: "world \<Rightarrow> plugsched \<Rightarrow> string \<Rightarrow> prog" where
  "create_sandbox w p kernel_src = in_order
     ([run_tool w ''.'' (Rsync (kernel_src @ ''/'') (work_dir p)),
       run_tool w (work_dir p) (Mkdir [mod_path p]),
       run_tool w (work_dir p) (Mkdir [tmp_dir p])] @
      map (copy_mapped w p) (file_mapping p))"

text \<open>The loop over the lines of \<open>core.c\<close>\<close>

fun old_springboard :: "string list \<Rightarrow> bool" where
  "old_springboard (l # m # ls) =
     (if contains l ''no-omit-frame-pointer''
      then if contains m ''__schedule'' then False else old_springboard (m # ls)
      else old_springboard (m # ls))"
| "old_springboard _ = True"

definition find_old_springboard :: "world \<Rightarrow> plugsched \<Rightarrow> action list \<Rightarrow> bool res" where
  "find_old_springboard w p tr =
     res_map old_springboard (read_lines w tr (path_join (work_dir p) ''kernel/sched/mod/core.c''))"

definition cmd_init :: "world \<Rightarrow> plugsched \<Rightarrow> string \<Rightarrow> string \<Rightarrow> string \<Rightarrow> prog" where
  "cmd_init w p kernel_src sym_vers kernel_config = in_order
     [create_sandbox w p kernel_src,
      run_tool w (plugsched_path p) (Cp [sym_vers] (work_dir p)),
      run_tool w (plugsched_path p) (Cp [kernel_config] (work_dir p @ ''/.config'')),
      run_tool w (plugsched_path p) (Cp [makefile p] (work_dir p)),
      run_tool w (plugsched_path p) (Cp [vmlinux p] (work_dir p)),
      apply_patch w p ''pre_extract.patch'',
      extract_objs w p,
      apply_patch w p ''post_extract.patch'',
      apply_patch w p ''dynamic_springboard.patch'',
      with_value (find_old_springboard w p) (\<lambda>old.
        if old then apply_patch w p ''dynamic_springboard_2.patch'' else in_order []),
      check (\<lambda>tr. open_append w tr (path_join (mod_path p) ''Makefile'')),
      run_tool w ''.'' (SpringboardSearch (vmlinux p) kernel_config)]"

subsection \<open>The package\<close>

text \<open>The value of \<open>PYTHONPATH\<close>; \<open>sys.version[0:3]\<close> is meant to be the minor version.\<close>

definition python_path :: "string \<Rightarrow> string" where
  "python_path ver =
     (let py_ver = take 3 ver
      in ''/usr/local/lib64/python'' @ py_ver @ ''/site-packages'' @ '':'' @ ''/usr/local/lib/python'' @ py_ver @ ''/site-packages'')"

definition add_python_path :: "world \<Rightarrow> prog" where
  "add_python_path w tr = (tr @ [SetEnv ''PYTHONPATH'' (python_path (sys_version w))], Inr ())"

text \<open>\<open>rpmbuild\<close> is looked up before its arguments are computed.\<close>

definition build_package :: "world \<Rightarrow> plugsched \<Rightarrow> string \<Rightarrow> prog" where
  "build_package w p root = and_then (check (\<lambda>tr. sh_lookup w tr ''rpmbuild''))
     (with_value (\<lambda>tr. case KREL (version p) of None \<Rightarrow> Inl (AttributeError ''KREL'') | Some krel \<Rightarrow> Inr krel)
        (\<lambda>krel tr. run_tool w root (RpmBuild [(''%_topdir'', realpath w tr root), (''%_builddir'', work_dir p),
           (''%_sdcrobjs'', [DQUOTE] @ join '' '' (sdcr_objs p) @ [DQUOTE]),
           (''%KVER'', KVER (version p)), (''%KREL'', krel)]) tr))"

definition cmd_build :: "world \<Rightarrow> plugsched \<Rightarrow> prog" where
  "cmd_build w p =
     (let root = path_join (tmp_dir p) ''rpmbuild''
      in in_order
        [check (\<lambda>tr. fatal_if (\<not> path_exists w tr (work_dir p))),
         add_python_path w,
         run_tool w (work_dir p) (Remove root),
         run_tool w (work_dir p) (Mkdir [root]),
         run_tool w root (Mkdir [''BUILD'', ''RPMS'', ''SOURCES'', ''SPECS'', ''SRPMS'']),
         run_tool w (work_dir p) (Cp [''working/scheduler.spec''] (path_join root ''SPECS'')),
         build_package w p root])"

subsection \<open>The commands\<close>

datatype command =
    ExtractSrc string string
  | Init string string string
  | DevInit string string
  | Build string

text \<open>The four paths of an initialisation, in the order the code checks them.\<close>

definition init_paths :: "string \<Rightarrow> string \<times> string \<times> string \<times> string" where
  "init_paths rel =
     (''/usr/lib/debug/lib/modules/'' @ rel @ ''/vmlinux'', ''/usr/src/kernels/'' @ rel @ ''/Module.symvers'',
      ''/usr/src/kernels/'' @ rel @ ''/.config'', ''/usr/src/kernels/'' @ rel @ ''/Makefile'')"

definition dev_paths :: "string \<Rightarrow> string \<times> string \<times> string \<times> string" where
  "dev_paths src = (path_join src ''vmlinux'', path_join src ''Module.symvers'',
      path_join src ''.config'', path_join src ''Makefile'')"

text \<open>\<open>root\<close> is the fresh directory of \<open>mkdtemp\<close>.\<close>

definition extract_src :: "world \<Rightarrow> string \<Rightarrow> string \<Rightarrow> string \<Rightarrow> prog" where
  "extract_src w root rpm target = and_then (run_tool w ''.'' (RpmPrep root rpm))
     (\<lambda>tr. let src = glob_at (sh_glob w tr) ''kernel*/linux*'' (root @ ''/BUILD/'')
        in in_order
          [check (\<lambda>_. fatal_if (length src \<noteq> 1)),
           run_tool w ''.'' (Rsync (hd src @ ''/'') (target @ ''/'')),
           (\<lambda>tr. in_order (map (\<lambda>pem. run_tool w ''.'' (Cp [pem] (target @ ''/certs'')))
                     (glob_at (sh_glob w tr) ''*.pem'' (root @ ''/SOURCES/''))) tr),
           run_tool w ''.'' (Remove root)] tr)"

definition init_checked ::
  "world \<Rightarrow> (string \<Rightarrow> string \<Rightarrow> string \<Rightarrow> plugsched res) \<Rightarrow> string \<times> string \<times> string \<times> string \<Rightarrow>
   string \<Rightarrow> string \<Rightarrow> prog" where
  "init_checked w new = (\<lambda>(vm, sym_vers, kernel_config, mk) kernel_src wd. in_order
     [check (\<lambda>tr. fatal_if (\<not> path_exists w tr vm)),
      check (\<lambda>tr. fatal_if (\<not> path_exists w tr kernel_config)),
      with_value (\<lambda>_. new wd vm mk) (\<lambda>p. cmd_init w p kernel_src sym_vers kernel_config)])"

text \<open>\<open>new\<close> is the constructor \<open>Plugsched\<close>.\<close>

definition main_command ::
  "world \<Rightarrow> (string \<Rightarrow> string \<Rightarrow> string \<Rightarrow> plugsched res) \<Rightarrow> string \<Rightarrow> command \<Rightarrow> prog" where
  "main_command w new tmp_root cmd =
     (case cmd of
        ExtractSrc rpm target \<Rightarrow> extract_src w tmp_root rpm target
      | Init rel kernel_src wd \<Rightarrow> init_checked w new (init_paths rel) kernel_src wd
      | DevInit kernel_src wd \<Rightarrow>
          and_then (check (\<lambda>tr. fatal_if (\<not> path_exists w tr kernel_src)))
            (init_checked w new (dev_paths kernel_src) kernel_src wd)
      | Build wd \<Rightarrow>
          with_value (\<lambda>_. new wd (path_join wd ''vmlinux'') (path_join wd ''Makefile'')) (cmd_build w))"

subsection \<open>The longest common prefix\<close>

lemma prefix_loop_spec:
  "prefix_loop n ps i =
     (let k = length (takeWhile (\<lambda>(a, b). a = b) ps)
      in if ps = [] then i else Some (if k < length ps then n + k else n + k - 1))"
proof (induction n ps i rule: prefix_loop.induct)
  case (2 n a b ps i)
  show ?case
  proof (cases "a = b")
    case True
    with 2 show ?thesis by (cases "ps = []") (auto simp: Let_def)
  qed simp
qed simp

lemma takeWhile_zip_common_prefix:
  "length (takeWhile (\<lambda>(a, b). a = b) (zip s t)) = common_prefix s t"
  by (induction s t rule: common_prefix.induct) auto

lemma common_prefix_le: "common_prefix s t \<le> length s" "common_prefix s t \<le> length t"
  by (induction s t rule: common_prefix.induct) auto

lemma common_prefix_len_eq:
  "common_prefix_len s t =
     (if s = [] \<or> t = [] then Inl UnboundLocalError
      else Inr (if common_prefix s t < min (length s) (length t) then common_prefix s t else common_prefix s t - 1))"
  by (auto simp: common_prefix_len_def prefix_loop_spec takeWhile_zip_common_prefix Let_def split: if_splits)

lemma common_prefix_len_bounds:
  "common_prefix_len s t = Inr n \<Longrightarrow> n \<le> common_prefix s t \<and> common_prefix s t \<le> n + 1"
  by (auto simp: common_prefix_len_eq split: if_splits)

lemma max_of_Max: "xs \<noteq> [] \<Longrightarrow> max_of xs = Max (set xs)"
  by (cases xs) (simp_all add: max_of_def Max.set_eq_fold [symmetric])

lemma get_config_dir_run:
  assumes "get_config_dir uname paths = Inr cand"
  obtains lens i where "i < length paths" "cand = rev (sort (map basename paths)) ! i"
    "length lens = length paths"
    "\<And>j. j < length paths \<Longrightarrow> common_prefix_len uname (rev (sort (map basename paths)) ! j) = Inr (lens ! j)"
    "\<And>j. j < length paths \<Longrightarrow> lens ! j < lens ! i \<or> (lens ! j = lens ! i \<and> j \<le> i)"
proof -
  let ?cs = "rev (sort (map basename paths))"
  from assms obtain lens where ne: "paths \<noteq> []" and lens: "res_list (common_prefix_len uname) ?cs = Inr lens"
    and cand: "cand = ?cs ! snd (max_of (zip lens [0..<length paths]))"
    by (auto simp: get_config_dir_def Let_def res_elims split: if_splits)
  let ?ps = "zip lens [0..<length paths]"
  from lens have len: "length lens = length paths"
    "\<And>j. j < length paths \<Longrightarrow> common_prefix_len uname (?cs ! j) = Inr (lens ! j)"
    by (simp_all add: res_list_Inr)
  with ne have "?ps \<noteq> []" by (cases lens; cases paths) simp_all
  then have top: "max_of ?ps = Max (set ?ps)" by (rule max_of_Max)
  have "Max (set ?ps) \<in> set ?ps" using \<open>?ps \<noteq> []\<close> by (intro Max_in) simp_all
  then obtain i where i: "i < length paths" "Max (set ?ps) = (lens ! i, i)"
    using len(1) by (auto simp: set_zip)
  have "lens ! j < lens ! i \<or> (lens ! j = lens ! i \<and> j \<le> i)" if "j < length paths" for j
  proof -
    have "(lens ! j, j) \<in> set ?ps" using that len(1) by (auto simp: set_zip)
    then have "(lens ! j, j) \<le> (lens ! i, i)" unfolding i(2) [symmetric] by (intro Max_ge) simp_all
    then show ?thesis by (auto simp: less_eq_prod_def)
  qed
  with i len cand top show ?thesis by (intro that [of i lens]) simp_all
qed

lemma strip_arch_None:
  "strip_arch krel = None \<longleftrightarrow> \<not> contains krel ''.x86_64'' \<and> \<not> contains krel ''.aarch64''"
  by (auto simp: strip_arch_def find_at_None split: option.splits simp flip: find_at_None)

subsection \<open>Properties\<close>

text \<open>C38: the configuration directory that is chosen shares with the release a prefix at most
  one character shorter than the longest common prefix among the candidates.\<close>

theorem config_dir_near_longest:
  assumes "get_config_dir uname paths = Inr cand"
  shows "cand \<in> basename ` set paths \<and>
    (\<forall>p \<in> set paths. common_prefix uname (basename p) \<le> common_prefix uname cand + 1)"
  using assms
proof (rule get_config_dir_run)
  fix lens i
  let ?cs = "rev (sort (map basename paths))"
  assume i: "i < length paths" "cand = ?cs ! i" "length lens = length paths"
    and lens: "\<And>j. j < length paths \<Longrightarrow> common_prefix_len uname (?cs ! j) = Inr (lens ! j)"
    and top: "\<And>j. j < length paths \<Longrightarrow> lens ! j < lens ! i \<or> (lens ! j = lens ! i \<and> j \<le> i)"
  have set: "set ?cs = basename ` set paths" by simp
  from i have "cand \<in> set ?cs" by (metis length_map length_rev length_sort nth_mem)
  moreover have "common_prefix uname q \<le> common_prefix uname cand + 1" if "q \<in> set ?cs" for q
  proof -
    from that obtain j where j: "j < length paths" "q = ?cs ! j"
      by (metis in_set_conv_nth length_map length_rev length_sort)
    from top [OF j(1)] have "lens ! j \<le> lens ! i" by auto
    moreover have "common_prefix uname q \<le> lens ! j + 1" using common_prefix_len_bounds [OF lens [OF j(1)]] j(2) by simp
    moreover have "lens ! i \<le> common_prefix uname cand" using common_prefix_len_bounds [OF lens [OF i(1)]] i(2) by simp
    ultimately show ?thesis by simp
  qed
  ultimately show ?thesis unfolding set by blast
qed

theorem config_dir_near_longest_witness:
  "''4.19.91'' \<in> basename ` {''c/4.19'', ''c/4.19.91''} \<and>
    common_prefix ''4.19.91-1.x86_64'' (basename ''c/4.19'') \<le> common_prefix ''4.19.91-1.x86_64'' ''4.19.91'' + 1"
proof -
  have "get_config_dir ''4.19.91-1.x86_64'' [''c/4.19'', ''c/4.19.91''] = Inr ''4.19.91''" by code_simp
  from config_dir_near_longest [OF this] show ?thesis by simp
qed

text \<open>The choice is not the longest common prefix: next to a configuration for the release
  itself, one for a neighbouring release can be taken.\<close>

theorem config_dir_not_longest:
  "get_config_dir ''4.19.91-12.x86_64'' [''c/4.19.91'', ''c/4.19.91-11'', ''c/4.19.91-12''] = Inr ''4.19.91-11'' \<and>
   common_prefix ''4.19.91-12.x86_64'' ''4.19.91-11'' < common_prefix ''4.19.91-12.x86_64'' ''4.19.91-12''"
proof
  show "get_config_dir ''4.19.91-12.x86_64'' [''c/4.19.91'', ''c/4.19.91-11'', ''c/4.19.91-12''] = Inr ''4.19.91-11''"
    by code_simp
qed code_simp

definition ex_plugsched :: "kernel_version \<Rightarrow> plugsched" where
  "ex_plugsched v = \<lparr>plugsched_path = ''/p'', work_dir = ''/w'', vmlinux = ''/w/vmlinux'', makefile = ''/w/Makefile'',
     mod_path = ''/w/kernel/sched/mod/'', tmp_dir = ''/w/working/'', version = v, config_dir = ''/p/configs/5.10'',
     file_mapping = [], threads = 1, cli_mod_files = [], cli_sdcr_srcs = [], sdcr_objs = [], mod_objs = []\<rparr>"

text \<open>A configuration directory whose \<open>boundary.yaml\<close> has no \<open>mod_files\<close> makes every command
  fail with a \<open>KeyError\<close> before it does anything.\<close>

theorem config_without_mod_files:
  assumes "awk (abspath cwd mk) = Inr vars" "get_kernel_version vars = Inr ver"
    and "lookup (self @ ''/tools/springboard_search.sh'') = Inr ()"
    and "get_config_dir (uname_r ver) (glob_at glob (self @ ''/configs/'' @ major ver @ ''*'') ''.'') = Inr cand"
    and "load (path_join (path_join (path_join self ''configs/'') cand) ''boundary.yaml'') = Inr cfg" "c_mod_files cfg = None"
  shows "new_plugsched cwd self awk glob lookup load cpus wd vm mk = Inl (KeyError ''mod_files'')"
  using assms by (simp add: new_plugsched_def Let_def key_def)

theorem config_without_mod_files_witness:
  "new_plugsched ''/'' ''/p''
     (\<lambda>_. Inr \<lparr>VERSION = ''6'', PATCHLEVEL = ''15'', SUBLEVEL = ''0'', EXTRAVERSION = ''-1.aarch64''\<rparr>)
     (\<lambda>_. [''/p/configs/6.15'']) (\<lambda>_. Inr ()) (\<lambda>_. Inr \<lparr>c_mod_files = None, c_sidecar = None\<rparr>)
     1 ''/w'' ''/w/vmlinux'' ''/w/Makefile'' =
   Inl (KeyError ''mod_files'')"
proof (rule config_without_mod_files [where cfg = "\<lparr>c_mod_files = None, c_sidecar = None\<rparr>"])
  show "get_kernel_version \<lparr>VERSION = ''6'', PATCHLEVEL = ''15'', SUBLEVEL = ''0'', EXTRAVERSION = ''-1.aarch64''\<rparr> =
      Inr \<lparr>KVER = ''6.15.0'', major = ''6.15'', uname_r = ''6.15.0-1.aarch64'', KREL = Some ''1''\<rparr>"
    by code_simp
  show "get_config_dir (uname_r \<lparr>KVER = ''6.15.0'', major = ''6.15'', uname_r = ''6.15.0-1.aarch64'', KREL = Some ''1''\<rparr>)
      (glob_at (\<lambda>_. [''/p/configs/6.15'']) (''/p'' @ ''/configs/'' @ major \<lparr>KVER = ''6.15.0'', major = ''6.15'', uname_r = ''6.15.0-1.aarch64'', KREL = Some ''1''\<rparr> @ ''*'') ''.'') = Inr ''6.15''"
    by code_simp
qed simp_all

text \<open>The second springboard patch is for kernels whose core has no frame-pointer attribute
  right above \<open>__schedule\<close>.\<close>

theorem old_springboard_spec:
  "old_springboard ls \<longleftrightarrow> \<not> (\<exists>i. i + 1 < length ls \<and>
     contains (ls ! i) ''no-omit-frame-pointer'' \<and> contains (ls ! (i + 1)) ''__schedule'')"
proof (induction ls rule: old_springboard.induct)
  case (1 l m ls)
  have "(\<exists>i. i + 1 < length (l # m # ls) \<and> contains ((l # m # ls) ! i) ''no-omit-frame-pointer'' \<and>
        contains ((l # m # ls) ! (i + 1)) ''__schedule'') \<longleftrightarrow>
      (contains l ''no-omit-frame-pointer'' \<and> contains m ''__schedule'') \<or>
      (\<exists>i. i + 1 < length (m # ls) \<and> contains ((m # ls) ! i) ''no-omit-frame-pointer'' \<and>
        contains ((m # ls) ! (i + 1)) ''__schedule'')"
    by (subst ex_nat_split) simp
  with 1 show ?case by (auto split: if_splits)
qed auto

text \<open>Only the first digit of the minor version is used: with two digits the path is that of another Python.\<close>

theorem python_path_minor: "python_path (''3.'' @ minor) = python_path (''3.'' @ take 1 minor)"
  by (simp add: python_path_def)

subsection \<open>What a program runs\<close>

text \<open>
  The contract of a program: it only appends to the actions; each of them but the last has
  succeeded, and the last one too if the program returns; and its calls of make and patch
  are the beginning of a sequence of the set \<open>L\<close>, all of it if the program returns.
\<close>

definition succeeds :: "world \<Rightarrow> action list \<Rightarrow> action \<Rightarrow> bool" where
  "succeeds w tr a = (case a of SetEnv k v \<Rightarrow> True | Run d t \<Rightarrow> sh_run w tr d t = Inr ())"

fun all_succeed :: "world \<Rightarrow> action list \<Rightarrow> action list \<Rightarrow> bool" where
  "all_succeed w tr [] = True"
| "all_succeed w tr (a # as) = (succeeds w tr a \<and> all_succeed w (tr @ [a]) as)"

definition is_build :: "action \<Rightarrow> bool" where
  "is_build a \<longleftrightarrow> (case a of Run d (Make args f n) \<Rightarrow> True | Run d (Patch f) \<Rightarrow> True | _ \<Rightarrow> False)"

lemma is_build_simps [simp]:
  "is_build (Run d (Make args f n))" "is_build (Run d (Patch f))" "\<not> is_build (Run d (Rsync x y))"
  "\<not> is_build (Run d (Mkdir xs))" "\<not> is_build (Run d (Cp xs y))" "\<not> is_build (Run d (Remove x))"
  "\<not> is_build (Run d OldDefConfig)" "\<not> is_build (Run d (SpringboardSearch x y))"
  by (simp_all add: is_build_def)




















subsection \<open>The order of an initialisation\<close>

definition stage_make :: "plugsched \<Rightarrow> string \<Rightarrow> string list \<Rightarrow> action" where
  "stage_make p stage objs =
     Run (work_dir p) (Make ([stage, ''objs='' @ join '' '' objs, ''plugsched_tmpdir='' @ tmp_dir p,
         ''plugsched_modpath='' @ mod_path p]) (path_join (tmp_dir p) ''Makefile.plugsched'') (threads p))"










subsection \<open>Systems on which everything works\<close>






text \<open>A system on which the extraction fails\<close>

definition failing_extract :: "kernel_version \<Rightarrow> world" where
  "failing_extract v = \<lparr>sh_run = (\<lambda>tr d t. if Run d t = stage_make (ex_plugsched v) ''extract'' [] then Inl (ErrorReturnCode 2) else Inr ()),
     sh_lookup = (\<lambda>_ _. Inr ()), sh_glob = (\<lambda>_ _. []), path_exists = (\<lambda>_ _. True), read_lines = (\<lambda>_ _. Inr []),
     open_append = (\<lambda>_ _. Inr ()), realpath = (\<lambda>_ f. f), sys_version = ''3.6.8''\<rparr>"

definition ex_version :: kernel_version where
  "ex_version = \<lparr>KVER = ''5.10.0'', major = ''5.10'', uname_r = ''5.10.0-rc1'', KREL = None\<rparr>"


text \<open>What is run before the package is built\<close>

definition prepare_actions :: "world \<Rightarrow> plugsched \<Rightarrow> action list" where
  "prepare_actions w p =
     (let root = path_join (tmp_dir p) ''rpmbuild''
      in [SetEnv ''PYTHONPATH'' (python_path (sys_version w)), Run (work_dir p) (Remove root), Run (work_dir p) (Mkdir [root]),
          Run root (Mkdir [''BUILD'', ''RPMS'', ''SOURCES'', ''SPECS'', ''SRPMS'']),
          Run (work_dir p) (Cp [''working/scheduler.spec''] (path_join root ''SPECS''))])"

definition package_action :: "world \<Rightarrow> plugsched \<Rightarrow> string \<Rightarrow> action list \<Rightarrow> action" where
  "package_action w p krel tr =
     (let root = path_join (tmp_dir p) ''rpmbuild''
      in Run root (RpmBuild [(''%_topdir'', realpath w tr root), (''%_builddir'', work_dir p),
           (''%_sdcrobjs'', [DQUOTE] @ join '' '' (sdcr_objs p) @ [DQUOTE]), (''%KVER'', KVER (version p)), (''%KREL'', krel)]))"

fun run_actions :: "world \<Rightarrow> action list \<Rightarrow> prog" where
  "run_actions w [] tr = (tr, Inr ())"
| "run_actions w (a # as) tr =
     (case a of SetEnv k v \<Rightarrow> run_actions w as (tr @ [a])
      | Run d t \<Rightarrow> (case sh_run w tr d t of Inl e \<Rightarrow> (tr @ [a], Inl e) | Inr _ \<Rightarrow> run_actions w as (tr @ [a])))"

lemma run_actions_spec:
  "\<exists>us vs. as = us @ vs \<and> fst (run_actions w as tr) = tr @ us \<and>
     (if all_succeed w tr as then snd (run_actions w as tr) = Inr () \<and> vs = [] else isl (snd (run_actions w as tr)))"
proof (induction as arbitrary: tr)
  case (Cons a as)
  show ?case
  proof (cases "succeeds w tr a")
    case True
    then have step: "run_actions w (a # as) tr = run_actions w as (tr @ [a])"
      by (auto simp: succeeds_def split: action.splits)
    from Cons [of "tr @ [a]"] obtain us vs where "as = us @ vs" "fst (run_actions w as (tr @ [a])) = (tr @ [a]) @ us"
      "if all_succeed w (tr @ [a]) as then snd (run_actions w as (tr @ [a])) = Inr () \<and> vs = []
       else isl (snd (run_actions w as (tr @ [a])))" by blast
    with True step show ?thesis by - (rule exI [where x = "a # us"], rule exI [where x = vs], auto simp del: run_actions.simps split: if_splits)
  next
    case False
    then obtain d t where a: "a = Run d t" "sh_run w tr d t \<noteq> Inr ()" by (cases a) (auto simp: succeeds_def)
    then obtain e where "sh_run w tr d t = Inl e" by (cases "sh_run w tr d t") auto
    with a(1) False show ?thesis by - (rule exI [where x = "[a]"], rule exI [where x = as], simp)
  qed
qed simp

lemma cmd_build_eq:
  "cmd_build w p tr =
     (if \<not> path_exists w tr (work_dir p) then (tr, Inl LoggedFatal)
      else and_then (run_actions w (prepare_actions w p)) (build_package w p (path_join (tmp_dir p) ''rpmbuild'')) tr)"
  by (auto simp: cmd_build_def Let_def and_then_def check_def add_python_path_def run_tool_def prepare_actions_def
      split: sum.splits prod.splits)

lemma build_package_outcome:
  "snd (build_package w p (path_join (tmp_dir p) ''rpmbuild'') tr) = Inr () \<longleftrightarrow>
     sh_lookup w tr ''rpmbuild'' = Inr () \<and> (\<exists>krel. KREL (version p) = Some krel \<and> succeeds w tr (package_action w p krel tr))"
  by (auto simp: build_package_def and_then_def check_def with_value_def run_tool_def package_action_def succeeds_def
      Let_def split: sum.splits option.splits)

text \<open>C40: the command \<open>build\<close> returns for exactly the releases whose name holds one of the two
  known architecture suffixes, on a system where the directory exists, the commands that
  prepare the package succeed, \<open>rpmbuild\<close> is found and it succeeds. For any other release
  \<open>rpmbuild\<close> is never run, and if nothing fails before, the program ends with an
  \<open>AttributeError\<close> for \<open>KREL\<close>.\<close>

theorem build_needs_arch:
  assumes "get_kernel_version m = Inr (version p)" "cmd_build w p tr = (tr', r)"
    and arch: "arch \<longleftrightarrow> contains (strip_chars ('' -'' @ [NL]) (EXTRAVERSION m)) ''.x86_64'' \<or>
      contains (strip_chars ('' -'' @ [NL]) (EXTRAVERSION m)) ''.aarch64''"
    and prep: "prep = prepare_actions w p"
  shows "(r = Inr () \<longleftrightarrow> path_exists w tr (work_dir p) \<and> all_succeed w tr prep \<and>
      sh_lookup w (tr @ prep) ''rpmbuild'' = Inr () \<and> arch \<and>
      succeeds w (tr @ prep) (package_action w p (the (KREL (version p))) (tr @ prep))) \<and>
    (arch \<or> (\<exists>us vs. tr' = tr @ us \<and> prep = us @ vs) \<and>
      (path_exists w tr (work_dir p) \<and> all_succeed w tr prep \<and> sh_lookup w (tr @ prep) ''rpmbuild'' = Inr () \<longrightarrow>
        r = Inl (AttributeError ''KREL'')))"
proof -
  let ?package = "build_package w p (path_join (tmp_dir p) ''rpmbuild'')"
  from assms(1) have "KREL (version p) = strip_arch (strip_chars ('' -'' @ [NL]) (EXTRAVERSION m))"
    by (auto simp: get_kernel_version_def Let_def split: if_splits dest!: sym [of _ "version p"])
  note krel = strip_arch_None [of "strip_chars ('' -'' @ [NL]) (EXTRAVERSION m)", folded this]
  then have suffix: "arch \<longleftrightarrow> (\<exists>krel. KREL (version p) = Some krel)" unfolding arch by auto
  obtain us vs where run: "prep = us @ vs" "fst (run_actions w prep tr) = tr @ us"
    "if all_succeed w tr prep then snd (run_actions w prep tr) = Inr () \<and> vs = [] else isl (snd (run_actions w prep tr))"
    using run_actions_spec [of prep w tr] by blast
  show ?thesis
  proof (cases "path_exists w tr (work_dir p)")
    case False
    with assms(2) show ?thesis by (auto simp: cmd_build_eq)
  next
    case True
    show ?thesis
    proof (cases "all_succeed w tr prep")
      case False
      with run(3) obtain e where "run_actions w prep tr = (tr @ us, Inl e)"
        using run(2) by (cases "run_actions w prep tr") (auto simp: isl_def)
      with assms(2) True have "tr' = tr @ us" "r = Inl e" by (auto simp: cmd_build_eq prep and_then_def)
      with False run(1) show ?thesis by auto
    next
      case ok: True
      with run have "run_actions w prep tr = (tr @ prep, Inr ())" by (cases "run_actions w prep tr") simp
      with assms(2) True have package: "?package (tr @ prep) = (tr', r)" by (simp add: cmd_build_eq prep and_then_def)
      with build_package_outcome [of w p "tr @ prep"] have outcome: "r = Inr () \<longleftrightarrow> sh_lookup w (tr @ prep) ''rpmbuild'' = Inr () \<and>
          (\<exists>krel. KREL (version p) = Some krel \<and> succeeds w (tr @ prep) (package_action w p krel (tr @ prep)))" by simp
      have "tr' = tr @ prep \<and> (sh_lookup w (tr @ prep) ''rpmbuild'' = Inr () \<longrightarrow> r = Inl (AttributeError ''KREL''))" if "\<not> arch"
        using package that suffix
        by (cases "KREL (version p)") (auto simp: build_package_def and_then_def check_def with_value_def split: sum.splits)
      with outcome True ok suffix show ?thesis by auto
    qed
  qed
qed

theorem build_needs_arch_witness:
  "\<exists>p. snd (cmd_build (failing_extract ex_version) p []) = Inl (AttributeError ''KREL'')"
proof -
  let ?m = "\<lparr>VERSION = ''5'', PATCHLEVEL = ''10'', SUBLEVEL = ''0'', EXTRAVERSION = ''-rc1''\<rparr>"
  let ?p = "ex_plugsched ex_version" and ?w = "failing_extract ex_version"
  have "get_kernel_version ?m = Inr ex_version" by code_simp
  then have m: "get_kernel_version ?m = Inr (version ?p)" by (simp add: ex_plugsched_def)
  obtain tr r where run: "cmd_build ?w ?p [] = (tr, r)" by fastforce
  have "path_exists ?w [] (work_dir ?p)" "all_succeed ?w [] (prepare_actions ?w ?p)"
    "sh_lookup ?w ([] @ prepare_actions ?w ?p) ''rpmbuild'' = Inr ()" by code_simp+
  with build_needs_arch [OF m run refl refl] have "r = Inl (AttributeError ''KREL'')" by (auto simp: strip_chars_def)
  with run show ?thesis by (intro exI [of _ ?p]) simp
qed

end
