(* ===== verification/Tools.thy ===== *)
theory Tools
  imports Analyze
begin

text \<open>
  \<open>tools/yaml-diff.py\<close>: the comparison of the outsiders of two extraction configurations,
  each given by its \<open>function\<close> section. The result is the set of the functions a warning is
  logged for.
\<close>

datatype item = Name string | Sig sig

fun items :: "section_value \<Rightarrow> item set" where
  "items (Names n) = Name ` n"
| "items (Sigs s) = Sig ` s"

definition outsider_set :: "(string \<rightharpoonup> section_value) \<Rightarrow> item set res" where
  "outsider_set fsec =
     (case fsec ''outsider'' of
        None \<Rightarrow> Inl (KeyError ''outsider'')
      | Some v \<Rightarrow> Inr (items v))"

definition YamlDiff :: "(string \<rightharpoonup> section_value) \<Rightarrow> (string \<rightharpoonup> section_value) \<Rightarrow> item set res" where
  "YamlDiff old_yaml new_yaml =
     res_bind (outsider_set old_yaml) (\<lambda>old_set.
       res_bind (outsider_set new_yaml) (\<lambda>new_set.
         Inr ((old_set \<union> new_set) - (old_set \<inter> new_set))))"

text \<open>The keys of the section that the analysis writes.\<close>

lemma function_section_get:
  "function_section cfg c k =
     (case map_of (rev classes_out) k of
        Some sel \<Rightarrow> Some (Sigs (sel c))
      | None \<Rightarrow> if k = ''interface'' then Some (Names (set (config_interface cfg))) else None)"
  by (simp add: function_section_def classes_out_def)

lemma function_section_no_outsider: "function_section cfg c ''outsider'' = None"
  by (simp add: function_section_get classes_out_def)

end
