(* ===== verification/Paths.thy ===== *)
theory Paths
  imports PyText
begin

text \<open>
  What \<open>os.path.relpath\<close> promises, on which the rewriting of include paths rests: a path
  relative to a directory names, from there, the same file. A file is named by the stack of
  its components, read from the root; \<open>walk_comps\<close> moves along a path.
\<close>

subsection \<open>Splitting and joining\<close>

lemma split_on_not_Nil [simp]: "split_on c s \<noteq> []"
  by (cases s) (auto split: list.splits)

lemma split_on_append: "split_on c (a @ c # b) = split_on c a @ split_on c b"
  by (induction a) (auto split: list.splits)

lemma split_on_no: "c \<notin> set s \<Longrightarrow> split_on c s = [s]"
  by (induction s) auto

lemma split_on_elems: "x \<in> set (split_on c s) \<Longrightarrow> c \<notin> set x"
  by (induction s arbitrary: x) (auto split: list.splits if_splits)

lemma split_on_join:
  "xs \<noteq> [] \<Longrightarrow> \<forall>x \<in> set xs. c \<notin> set x \<Longrightarrow> split_on c (join [c] xs) = xs"
proof (induction xs rule: induct_list012)
  case (3 x y zs)
  then have "split_on c (x @ c # join [c] (y # zs)) = [x] @ split_on c (join [c] (y # zs))"
    by (simp add: split_on_append split_on_no)
  with 3 show ?case by simp
qed (simp_all add: split_on_no)

subsection \<open>Components\<close>

definition comp_step :: "string \<Rightarrow> string list \<Rightarrow> string list" where
  "comp_step c acc = (if c = [] \<or> c = ''.'' then acc else if c = ''..'' then tl acc else c # acc)"

text \<open>Innermost component first; \<open>..\<close> at the root stays there.\<close>

definition walk_comps :: "string list \<Rightarrow> string list \<Rightarrow> string list" where
  "walk_comps cs acc = fold comp_step cs acc"

definition plain :: "string \<Rightarrow> bool" where
  "plain c \<longleftrightarrow> c \<noteq> [] \<and> c \<noteq> ''.'' \<and> c \<noteq> ''..'' \<and> CHR ''/'' \<notin> set c"

lemma walk_comps_simps [simp]:
  "walk_comps [] acc = acc" "walk_comps (c # cs) acc = walk_comps cs (comp_step c acc)"
  "walk_comps (cs @ ds) acc = walk_comps ds (walk_comps cs acc)"
  by (simp_all add: walk_comps_def)

lemma comp_step_plain: "CHR ''/'' \<notin> set c \<Longrightarrow> \<forall>a \<in> set acc. plain a \<Longrightarrow> \<forall>a \<in> set (comp_step c acc). plain a"
  by (cases acc) (auto simp: comp_step_def plain_def)

lemma walk_comps_plain:
  "\<forall>c \<in> set cs. CHR ''/'' \<notin> set c \<Longrightarrow> \<forall>a \<in> set acc. plain a \<Longrightarrow> \<forall>a \<in> set (walk_comps cs acc). plain a"
proof (induction cs arbitrary: acc)
  case (Cons c cs)
  then have "\<forall>a \<in> set (comp_step c acc). plain a" by (intro comp_step_plain) simp_all
  with Cons show ?case by simp
qed simp

lemma walk_comps_all_plain: "\<forall>c \<in> set cs. plain c \<Longrightarrow> walk_comps cs acc = rev cs @ acc"
  by (induction cs arbitrary: acc) (auto simp: comp_step_def plain_def)

lemma walk_comps_up: "walk_comps (replicate n ''..'') acc = drop n acc"
  by (induction n arbitrary: acc) (simp_all add: comp_step_def drop_Suc)

lemma norm_comps_walk: "\<forall>a \<in> set acc. plain a \<Longrightarrow> \<forall>c \<in> set cs. CHR ''/'' \<notin> set c \<Longrightarrow>
    norm_comps True acc cs = rev (walk_comps cs acc)"
proof (induction cs arbitrary: acc)
  case (Cons c cs)
  then have "\<forall>a \<in> set (comp_step c acc). plain a" by (intro comp_step_plain) simp_all
  with Cons have "norm_comps True (comp_step c acc) cs = rev (walk_comps cs (comp_step c acc))" by simp
  moreover have "acc \<noteq> [] \<Longrightarrow> hd acc \<noteq> ''..''" using Cons.prems(1) by (cases acc) (auto simp: plain_def)
  ultimately show ?case by (auto simp: comp_step_def)
qed simp

subsection \<open>The file a path names\<close>

definition one_root :: "string \<Rightarrow> bool" where
  "one_root p \<longleftrightarrow> \<not> starts_with p ''//''"

definition file_at :: "string \<Rightarrow> string \<Rightarrow> string list" where
  "file_at cwd p =
     walk_comps (split_on (CHR ''/'') p) (if starts_with p ''/'' then [] else walk_comps (split_on (CHR ''/'') cwd) [])"

lemma walk_split_plain: "\<forall>a \<in> set acc. plain a \<Longrightarrow> \<forall>a \<in> set (walk_comps (split_on (CHR ''/'') p) acc). plain a"
  by (rule walk_comps_plain) (auto dest: split_on_elems)

lemma file_at_plain: "\<forall>a \<in> set (file_at cwd p). plain a"
  unfolding file_at_def using walk_split_plain [of "[]" cwd] by (intro walk_split_plain) simp

lemma normpath_rooted:
  assumes "starts_with p ''/''" "one_root p"
  shows "normpath p = CHR ''/'' # join ''/'' (rev (walk_comps (split_on (CHR ''/'') p) []))"
proof -
  have "p \<noteq> []" "initial_slashes p = 1" using assms by (auto simp: initial_slashes_def one_root_def)
  moreover have "norm_comps True [] (split_on (CHR ''/'') p) = rev (walk_comps (split_on (CHR ''/'') p) [])"
    by (rule norm_comps_walk) (auto dest: split_on_elems)
  ultimately show ?thesis by (simp add: normpath_def Let_def)
qed

lemma starts_with_slash: "starts_with p ''/'' \<longleftrightarrow> (\<exists>q. p = CHR ''/'' # q)"
  by (cases p) auto

lemma split_path_join:
  assumes "\<not> starts_with b ''/''"
  shows "walk_comps (split_on (CHR ''/'') (path_join a b)) acc =
    walk_comps (split_on (CHR ''/'') b) (walk_comps (split_on (CHR ''/'') a) acc)"
proof -
  have last: "walk_comps (split_on (CHR ''/'') (c @ [CHR ''/''])) acc = walk_comps (split_on (CHR ''/'') c) acc" for c
    using split_on_append [of "CHR ''/''" c "[]"] by (simp add: comp_step_def)
  consider "a = []" | c where "a = c @ [CHR ''/'']" | "a \<noteq> []" "\<not> ends_with a ''/''"
    by (auto simp: ends_with_iff)
  then show ?thesis
  proof cases
    case 1
    with assms show ?thesis by (simp add: path_join_def comp_step_def)
  next
    case 2
    then have "path_join a b = c @ CHR ''/'' # b" using assms by (simp add: path_join_def ends_with_iff)
    then show ?thesis using last [of c] by (simp add: split_on_append 2)
  next
    case 3
    with assms have "path_join a b = a @ CHR ''/'' # b" by (simp add: path_join_def)
    then show ?thesis by (simp add: split_on_append)
  qed
qed

lemma one_root_join:
  assumes "starts_with a ''/''" "one_root a" "\<not> starts_with b ''/''"
  shows "starts_with (path_join a b) ''/'' \<and> one_root (path_join a b)"
proof -
  from assms(1) obtain q where q: "a = CHR ''/'' # q" by (auto simp: starts_with_slash)
  show ?thesis
  proof (cases "path_join a b = a @ b")
    case True
    with assms q show ?thesis by (cases q; cases b) (auto simp: one_root_def)
  next
    case False
    then have "path_join a b = a @ CHR ''/'' # b" "\<not> ends_with a ''/''"
      using assms(3) by (auto simp: path_join_def split: if_splits)
    with assms q show ?thesis by (cases q) (auto simp: one_root_def ends_with_def)
  qed
qed

lemma abspath_file:
  assumes "starts_with cwd ''/''" "one_root cwd" "one_root p"
  shows "abspath cwd p = CHR ''/'' # join ''/'' (rev (file_at cwd p))"
proof (cases "starts_with p ''/''")
  case True
  with assms(3) show ?thesis by (simp add: abspath_def file_at_def normpath_rooted)
next
  case False
  with one_root_join [OF assms(1,2) False] show ?thesis
    by (simp add: abspath_def file_at_def normpath_rooted split_path_join)
qed

definition path_comps :: "string \<Rightarrow> string \<Rightarrow> string list" where
  "path_comps cwd p = filter (\<lambda>c. c \<noteq> []) (split_on (CHR ''/'') (abspath cwd p))"

lemma path_comps_file:
  assumes "starts_with cwd ''/''" "one_root cwd" "one_root p"
  shows "path_comps cwd p = rev (file_at cwd p)"
proof (cases "file_at cwd p = []")
  case True
  with assms show ?thesis by (simp add: path_comps_def abspath_file)
next
  case False
  let ?cs = "rev (file_at cwd p)"
  have plain: "\<forall>a \<in> set ?cs. plain a" using file_at_plain by simp
  then have "split_on (CHR ''/'') (join ''/'' ?cs) = ?cs"
    using False by (intro split_on_join) (auto simp: plain_def)
  with assms plain show ?thesis by (simp add: path_comps_def abspath_file filter_id_conv plain_def)
qed

subsection \<open>Relative paths\<close>

lemma common_prefix_le_length: "common_prefix xs ys \<le> length xs"
  by (induction xs ys rule: common_prefix.induct) auto

lemma take_common_prefix: "take (common_prefix xs ys) xs = take (common_prefix xs ys) ys"
  by (induction xs ys rule: common_prefix.induct) auto

text \<open>The path that \<open>relpath\<close> returns leads from \<open>start\<close> to the file.\<close>

lemma relpath_leads:
  assumes cwd: "starts_with cwd ''/''" "one_root cwd" and roots: "one_root p" "one_root start"
    and run: "relpath cwd p start = Inr r"
  shows "\<not> starts_with r ''/''" "walk_comps (split_on (CHR ''/'') r) (file_at cwd start) = file_at cwd p"
proof -
  define S P where SP: "S = rev (file_at cwd start)" "P = rev (file_at cwd p)"
  define i where "i = common_prefix S P"
  define rel where "rel = replicate (length S - i) ''..'' @ drop i P"
  have plainP: "\<forall>c \<in> set P. plain c" using file_at_plain by (simp add: SP)
  have "path_comps cwd start = S" "path_comps cwd p = P" using cwd roots by (simp_all add: path_comps_file SP)
  with run have r: "r = (if rel = [] then ''.'' else join ''/'' rel)"
    by (auto simp: relpath_def path_comps_def Let_def i_def rel_def split: if_splits)
  have comps: "\<forall>c \<in> set rel. c \<noteq> [] \<and> CHR ''/'' \<notin> set c"
  proof
    fix c assume "c \<in> set rel"
    then have "c = ''..'' \<or> c \<in> set P" unfolding rel_def set_append using in_set_dropD by (fastforce dest: in_set_replicate [THEN iffD1])
    then show "c \<noteq> [] \<and> CHR ''/'' \<notin> set c" 
    proof
      assume "c = ''..''"
      then show ?thesis by simp
    next
      assume "c \<in> set P"
      with plainP have "plain c" by blast
      then show ?thesis by (simp add: plain_def)
    qed
  qed
  show "\<not> starts_with r ''/''"
  proof (cases rel rule: remdups_adj.cases)
    case (2 x)
    with comps show ?thesis by (cases x) (auto simp: r)
  next
    case (3 x y zs)
    with comps show ?thesis by (cases x) (auto simp: r)
  qed (simp add: r)
  have "walk_comps (split_on (CHR ''/'') r) (rev S) = walk_comps rel (rev S)"
  proof (cases "rel = []")
    case False
    then have "split_on (CHR ''/'') r = rel" using comps r by (simp add: split_on_join)
    then show ?thesis by simp
  qed (simp add: r comp_step_def)
  also have "\<dots> = rev (drop i P) @ rev (take i S)"
  proof -
    have "walk_comps (drop i P) acc = rev (drop i P) @ acc" for acc
      using plainP by (intro walk_comps_all_plain) (auto dest: in_set_dropD)
    moreover have "drop (length S - i) (rev S) = rev (take i S)" by (simp add: drop_rev common_prefix_le_length i_def)
    ultimately show ?thesis by (simp add: rel_def walk_comps_up)
  qed
  also have "\<dots> = rev P"
    unfolding i_def take_common_prefix by (metis append_take_drop_id rev_append)
  finally show "walk_comps (split_on (CHR ''/'') r) (file_at cwd start) = file_at cwd p" by (simp add: SP)
qed

lemma relpath_cwd:
  assumes "starts_with cwd ''/''" "one_root cwd" "one_root p" "relpath cwd p ''.'' = Inr r"
  shows "file_at cwd r = file_at cwd p" "one_root r"
proof -
  have "one_root ''.''" by (simp add: one_root_def)
  note leads = relpath_leads [OF assms(1-3) this assms(4)]
  from leads(1) show "one_root r" by (cases r) (auto simp: one_root_def)
  from leads show "file_at cwd r = file_at cwd p" by (simp add: file_at_def comp_step_def)
qed

lemma relpath_dir:
  assumes "starts_with cwd ''/''" "one_root cwd" "one_root p" "one_root d" "relpath cwd p d = Inr r"
  shows "file_at cwd (path_join d r) = file_at cwd p" "one_root (path_join d r)"
proof -
  note leads = relpath_leads [OF assms]
  have "starts_with (path_join d r) ''/'' \<longleftrightarrow> starts_with d ''/''"
    using leads(1) by (cases d; cases r) (auto simp: path_join_def)
  with leads show "file_at cwd (path_join d r) = file_at cwd p" by (simp add: file_at_def split_path_join)
  show "one_root (path_join d r)"
  proof (cases "starts_with d ''/''")
    case True
    with one_root_join assms(4) leads(1) show ?thesis by blast
  next
    case False
    with leads(1) show ?thesis by (cases d; cases r) (auto simp: one_root_def path_join_def)
  qed
qed

subsection \<open>Directories\<close>

lemma one_root_prefix: "one_root (a @ b) \<Longrightarrow> one_root a"
  unfolding one_root_def starts_with_iff by auto

lemma dirname_prefix: "\<exists>b. p = dirname p @ b"
proof -
  let ?head = "rev (dropWhile (\<lambda>c. c \<noteq> CHR ''/'') (rev p))"
  have p: "p = ?head @ rev (takeWhile (\<lambda>c. c \<noteq> CHR ''/'') (rev p))"
    by (metis rev_append rev_rev_ident takeWhile_dropWhile_id)
  have h: "?head = rev (dropWhile (\<lambda>c. c = CHR ''/'') (rev ?head)) @ rev (takeWhile (\<lambda>c. c = CHR ''/'') (rev ?head))"
    by (metis rev_append rev_rev_ident takeWhile_dropWhile_id)
  show ?thesis
  proof (cases "list_all (\<lambda>c. c = CHR ''/'') ?head")
    case True
    then have "dirname p = ?head" by (simp add: dirname_def Let_def)
    with p show ?thesis by metis
  next
    case False
    then have "dirname p = rev (dropWhile (\<lambda>c. c = CHR ''/'') (rev ?head))" by (simp add: dirname_def Let_def)
    with p h show ?thesis by (metis append.assoc)
  qed
qed

lemma one_root_dirname: "one_root p \<Longrightarrow> one_root (dirname p)"
proof -
  obtain b where p: "p = dirname p @ b" using dirname_prefix by blast
  assume "one_root p"
  then have "one_root (dirname p @ b)" using p by simp
  then show ?thesis by (rule one_root_prefix)
qed

lemma one_root_path_join: "one_root a \<Longrightarrow> one_root b \<Longrightarrow> one_root (path_join a b)"
proof (cases "starts_with b ''/'' \<or> a = []")
  case False
  assume one: "one_root a" "one_root b"
  show ?thesis
  proof (cases "starts_with a ''/''")
    case True
    with False one one_root_join show ?thesis by blast
  next
    case rel: False
    from False have "a \<noteq> []" by simp
    with rel obtain c cs where "a = c # cs" "c \<noteq> CHR ''/''" by (cases a) auto
    then show ?thesis using False by (auto simp: one_root_def path_join_def)
  qed
qed (auto simp: path_join_def)

end
