(* ===== verification/Tasks.thy ===== *)
theory Tasks
  imports Prelude
begin

text \<open>
  Independent programs on shared files. A task turns a map of files into a map of files and
  an outcome; the locale \<open>file_tasks\<close> states which files it may change and on which files
  its effect depends. Tasks that do not touch each other's files can run in any order.
\<close>

type_synonym ('p, 'c) task_run = "('p \<rightharpoonup> 'c) \<Rightarrow> ('p \<rightharpoonup> 'c) \<times> unit res"

text \<open>One after the other until one raises; and all of them, whatever they return\<close>

fun run_seq :: "('t \<Rightarrow> ('p, 'c) task_run) \<Rightarrow> 't list \<Rightarrow> ('p, 'c) task_run" where
  "run_seq run [] fs = (fs, Inr ())"
| "run_seq run (t # ts) fs = (case run t fs of (fs, Inl e) \<Rightarrow> (fs, Inl e) | (fs, Inr _) \<Rightarrow> run_seq run ts fs)"

definition run_all :: "('t \<Rightarrow> ('p, 'c) task_run) \<Rightarrow> 't list \<Rightarrow> ('p \<rightharpoonup> 'c) \<Rightarrow> ('p \<rightharpoonup> 'c)" where
  "run_all run ts fs = fold (\<lambda>t fs. fst (run t fs)) ts fs"

lemma run_all_simps [simp]:
  "run_all run [] fs = fs" "run_all run (t # ts) fs = run_all run ts (fst (run t fs))"
  "run_all run (ts @ us) fs = run_all run us (run_all run ts fs)"
  by (simp_all add: run_all_def)

definition independent :: "('t \<Rightarrow> 'p set) \<Rightarrow> ('t \<Rightarrow> 'p set) \<Rightarrow> 't set \<Rightarrow> bool" where
  "independent reads writes T \<longleftrightarrow> (\<forall>s \<in> T. \<forall>t \<in> T. s \<noteq> t \<longrightarrow> writes s \<inter> (reads t \<union> writes t) = {})"

lemma independent_subset: "independent reads writes T \<Longrightarrow> S \<subseteq> T \<Longrightarrow> independent reads writes S"
  by (auto simp: independent_def)

text \<open>Some tasks are complete, in some order, the others still to do.\<close>

definition in_progress ::
  "('t \<Rightarrow> ('p, 'c) task_run) \<Rightarrow> 't list \<Rightarrow> ('p \<rightharpoonup> 'c) \<Rightarrow> 't list \<Rightarrow> ('p \<rightharpoonup> 'c) \<Rightarrow> bool" where
  "in_progress run ts fs0 rest fs \<longleftrightarrow> (\<exists>fin. distinct (fin @ rest) \<and> set (fin @ rest) = set ts \<and>
     (\<forall>t \<in> set fin. snd (run t fs0) = Inr ()) \<and> fs = run_all run fin fs0)"

locale file_tasks =
  fixes run :: "'t \<Rightarrow> ('p, 'c) task_run"
    and reads :: "'t \<Rightarrow> 'p set" and writes :: "'t \<Rightarrow> 'p set"
  assumes frame: "p \<notin> writes t \<Longrightarrow> fst (run t fs) p = fs p"
    and local_outcome: "(\<And>p. p \<in> reads t \<union> writes t \<Longrightarrow> fs p = gs p) \<Longrightarrow> snd (run t fs) = snd (run t gs)"
    and local_effect: "(\<And>p. p \<in> reads t \<union> writes t \<Longrightarrow> fs p = gs p) \<Longrightarrow> p \<in> writes t \<Longrightarrow>
      fst (run t fs) p = fst (run t gs) p"
begin

lemma run_all_frame: "\<forall>t \<in> set ts. p \<notin> writes t \<Longrightarrow> run_all run ts fs p = fs p"
  by (induction ts arbitrary: fs) (simp_all add: frame)

text \<open>The other tasks do not change what a task sees.\<close>

lemma after_others:
  assumes "independent reads writes (insert t (set ts))" "t \<notin> set ts"
  shows "snd (run t (run_all run ts fs)) = snd (run t fs)"
    "p \<in> writes t \<Longrightarrow> fst (run t (run_all run ts fs)) p = fst (run t fs) p"
proof -
  have same: "run_all run ts fs p = fs p" if "p \<in> reads t \<union> writes t" for p
  proof (rule run_all_frame, rule ballI)
    fix s assume "s \<in> set ts"
    with assms have "writes s \<inter> (reads t \<union> writes t) = {}" by (auto simp: independent_def)
    with that show "p \<notin> writes s" by blast
  qed
  show "snd (run t (run_all run ts fs)) = snd (run t fs)" by (rule local_outcome) (rule same)
  show "p \<in> writes t \<Longrightarrow> fst (run t (run_all run ts fs)) p = fst (run t fs) p"
    by (rule local_effect) (rule same)
qed

text \<open>Every file is left by the one task that may write it.\<close>

lemma run_all_at:
  assumes "independent reads writes (set ts)" "distinct ts" "t \<in> set ts" "p \<in> writes t"
  shows "run_all run ts fs p = fst (run t fs) p"
proof -
  from assms(3) obtain us vs where ts: "ts = us @ t # vs" by (auto simp: in_set_conv_decomp)
  have "\<forall>v \<in> set vs. p \<notin> writes v"
  proof
    fix v assume "v \<in> set vs"
    with assms(2) have "v \<noteq> t" by (auto simp: ts)
    with \<open>v \<in> set vs\<close> assms(1) have "writes v \<inter> writes t = {}" unfolding independent_def ts by fastforce
    with assms(4) show "p \<notin> writes v" by blast
  qed
  then have "run_all run ts fs p = fst (run t (run_all run us fs)) p" by (simp add: ts run_all_frame)
  also have "\<dots> = fst (run t fs) p"
    using assms by (intro after_others) (auto simp: ts intro: independent_subset)
  finally show ?thesis .
qed

lemma run_all_order:
  assumes "independent reads writes (set ts)" "distinct ts" "distinct us" "set us = set ts"
  shows "run_all run us fs = run_all run ts fs"
proof
  fix p
  show "run_all run us fs p = run_all run ts fs p"
  proof (cases "\<exists>t \<in> set ts. p \<in> writes t")
    case True
    then obtain t where "t \<in> set ts" "p \<in> writes t" by blast
    with assms run_all_at [where ts = us and t = t and p = p] run_all_at [where ts = ts and t = t and p = p] show ?thesis by simp
  next
    case False
    with assms(4) show ?thesis by (simp add: run_all_frame)
  qed
qed

lemma run_seq_ok:
  assumes "independent reads writes (set ts)" "distinct ts"
  shows "run_seq run ts fs = (fs', Inr ()) \<longleftrightarrow>
    (\<forall>t \<in> set ts. snd (run t fs) = Inr ()) \<and> fs' = run_all run ts fs"
  using assms
proof (induction ts arbitrary: fs)
  case (Cons t ts)
  let ?fs = "fst (run t fs)"
  have same: "snd (run s ?fs) = snd (run s fs)" if "s \<in> set ts" for s
  proof -
    have "independent reads writes (insert s (set [t]))"
      using that Cons.prems(1) by (auto intro: independent_subset)
    with after_others(1) [where t = s and ts = "[t]" and fs = fs] that Cons.prems(2) show ?thesis by auto
  qed
  have "independent reads writes (set ts)" using Cons.prems(1) by (auto intro: independent_subset)
  then have rest: "run_seq run ts ?fs = (fs', Inr ()) \<longleftrightarrow>
      (\<forall>s \<in> set ts. snd (run s ?fs) = Inr ()) \<and> fs' = run_all run ts ?fs"
    using Cons.IH Cons.prems(2) by simp
  show ?case
  proof (cases "snd (run t fs)")
    case (Inl e)
    then have "run_seq run (t # ts) fs = (?fs, Inl e)" by (simp add: case_prod_beta)
    with Inl show ?thesis by simp
  next
    case (Inr u)
    then have "run_seq run (t # ts) fs = run_seq run ts ?fs" by (simp add: case_prod_beta)
    with rest same Inr show ?thesis by simp
  qed
qed auto

lemma in_progress_start: "distinct ts \<Longrightarrow> in_progress run ts fs ts fs"
  unfolding in_progress_def by (intro exI [of _ "[]"]) simp

lemma in_progress_outcome:
  assumes "independent reads writes (set ts)" "in_progress run ts fs0 rest fs" "t \<in> set rest"
  shows "snd (run t fs) = snd (run t fs0)"
proof -
  from assms(2) obtain fin where d: "distinct (fin @ rest)" "set (fin @ rest) = set ts" "fs = run_all run fin fs0"
    unfolding in_progress_def by blast
  have "t \<notin> set fin" using d(1) assms(3) by auto
  moreover have "insert t (set fin) \<subseteq> set ts" using d(2) assms(3) by auto
  then have "independent reads writes (insert t (set fin))" by (rule independent_subset [OF assms(1)])
  ultimately show ?thesis unfolding d(3) by (intro after_others(1))
qed

lemma in_progress_step:
  assumes "independent reads writes (set ts)" "in_progress run ts fs0 rest fs" "t \<in> set rest"
    and "run t fs = (fs', Inr ())"
  shows "in_progress run ts fs0 (remove1 t rest) fs'"
proof -
  from assms(2) obtain fin where d: "distinct (fin @ rest)" "set (fin @ rest) = set ts" "fs = run_all run fin fs0"
    "\<forall>t \<in> set fin. snd (run t fs0) = Inr ()"
    unfolding in_progress_def by blast
  have "snd (run t fs0) = Inr ()" using in_progress_outcome [OF assms(1-3)] assms(4) by simp
  moreover have "fs' = run_all run (fin @ [t]) fs0" using assms(4) d(3) by simp
  ultimately show ?thesis
    unfolding in_progress_def using d assms(3) by (intro exI [of _ "fin @ [t]"]) auto
qed

lemma in_progress_fails:
  assumes "independent reads writes (set ts)" "in_progress run ts fs0 rest fs" "t \<in> set rest"
    and "run t fs = (fs', Inl e)" "distinct ts"
  shows "snd (run_seq run ts fs0) \<noteq> Inr ()"
proof
  assume "snd (run_seq run ts fs0) = Inr ()"
  then have "run_seq run ts fs0 = (fst (run_seq run ts fs0), Inr ())" by (metis prod.collapse)
  with run_seq_ok [OF assms(1,5)] have "\<forall>t \<in> set ts. snd (run t fs0) = Inr ()" by blast
  moreover have "t \<in> set ts" using assms(2,3) by (auto simp: in_progress_def)
  ultimately show False using in_progress_outcome [OF assms(1-3)] assms(4) by simp
qed

lemma in_progress_done:
  assumes "independent reads writes (set ts)" "distinct ts" "in_progress run ts fs0 [] fs"
  shows "run_seq run ts fs0 = (fs, Inr ())"
proof -
  from assms(3) obtain fin where d: "distinct fin" "set fin = set ts" "fs = run_all run fin fs0"
    "\<forall>t \<in> set fin. snd (run t fs0) = Inr ()"
    unfolding in_progress_def by auto
  with run_all_order [OF assms(1,2) d(1,2)] show ?thesis by (simp add: run_seq_ok [OF assms(1,2)])
qed

text \<open>If the sequence succeeds, so does whatever is still to do, in any order.\<close>

lemma in_progress_ok:
  assumes "independent reads writes (set ts)" "distinct ts" "in_progress run ts fs0 rest fs" "t \<in> set rest"
    and "run_seq run ts fs0 = (fs1, Inr ())"
  shows "\<exists>fs'. run t fs = (fs', Inr ())"
proof (cases "snd (run t fs)")
  case (Inl e)
  then have "run t fs = (fst (run t fs), Inl e)" by (metis prod.collapse)
  with in_progress_fails [OF assms(1,3,4) this assms(2)] assms(5) show ?thesis by simp
next
  case (Inr u)
  then show ?thesis by (metis prod.collapse unit.exhaust)
qed

end

end
