(* ===== verification/Files.thy ===== *)
theory Files
  imports Extract Collect Tasks
begin

text \<open>
  The files the stages exchange, and the main programs of \<open>collect.py\<close>, \<open>analyze.py\<close> and
  \<open>extract.py\<close> as functions on the files. A file is found under its absolute path. Its
  contents are typed: serialisation to JSON and YAML is not modelled, and a file of another
  kind than the reader expects is a \<open>ValueError\<close>. Directories are not modelled. A program
  that raises keeps what it has written: the result is the pair of the files and the outcome.
\<close>

subsection \<open>Contents\<close>

datatype content =
    ConfigFile config
  | MetaFile "raw_edge meta"
  | HeaderSymbols "fn_meta list"
  | StructDoc "string \<rightharpoonup> struct_prop"
  | ExtractConfig ex_config
  | Text string

type_synonym files = "string \<rightharpoonup> content"

definition read_file :: "string \<Rightarrow> files \<Rightarrow> string \<Rightarrow> content res" where
  "read_file cwd fs p = (case fs (abspath cwd p) of None \<Rightarrow> Inl (FileNotFoundError p) | Some c \<Rightarrow> Inr c)"

definition write_file :: "string \<Rightarrow> string \<Rightarrow> content \<Rightarrow> files \<Rightarrow> files" where
  "write_file cwd p c fs = fs(abspath cwd p \<mapsto> c)"

definition config_of :: "content \<Rightarrow> config res" where
  "config_of c = (case c of ConfigFile cfg \<Rightarrow> Inr cfg | _ \<Rightarrow> Inl ValueError)"

definition meta_of :: "content \<Rightarrow> raw_edge meta res" where
  "meta_of c = (case c of MetaFile m \<Rightarrow> Inr m | _ \<Rightarrow> Inl ValueError)"

definition ex_config_of :: "content \<Rightarrow> ex_config res" where
  "ex_config_of c = (case c of ExtractConfig x \<Rightarrow> Inr x | _ \<Rightarrow> Inl ValueError)"

text \<open>The keys \<open>fn\<close> and \<open>var\<close>, which both kinds of metadata files have\<close>

definition symbols_of :: "content \<Rightarrow> (fn_meta list \<times> var_meta list) res" where
  "symbols_of c =
     (case c of MetaFile m \<Rightarrow> Inr (m_fn m, m_var m) | HeaderSymbols fns \<Rightarrow> Inr (fns, []) | _ \<Rightarrow> Inl ValueError)"

definition text_of :: "content \<Rightarrow> string res" where
  "text_of c = (case c of Text s \<Rightarrow> Inr s | _ \<Rightarrow> Inl ValueError)"

text \<open>
  \<open>f.readlines()\<close> of a file opened in text mode: the three ends of a line, a newline, a
  carriage return and a carriage return with a newline, are read as a newline, and a line
  ends with its newline.
\<close>

abbreviation CR :: char where "CR \<equiv> CHR 0x0D"

fun universal_newlines :: "string \<Rightarrow> string" where
  "universal_newlines (c # d # s) =
     (if c = CR then NL # universal_newlines (if d = NL then s else d # s) else c # universal_newlines (d # s))"
| "universal_newlines [c] = [if c = CR then NL else c]"
| "universal_newlines [] = []"

fun split_lines :: "string \<Rightarrow> lines" where
  "split_lines [] = []"
| "split_lines (c # s) =
     (if c = NL then [NL] # split_lines s
      else case split_lines s of [] \<Rightarrow> [[c]] | l # ls \<Rightarrow> (c # l) # ls)"

definition readlines :: "string \<Rightarrow> lines" where
  "readlines s = split_lines (universal_newlines s)"

lemma universal_newlines_id: "CR \<notin> set s \<Longrightarrow> universal_newlines s = s"
  by (induction s rule: universal_newlines.induct) auto

lemma concat_split_lines: "concat (split_lines s) = s"
  by (induction s rule: split_lines.induct) (auto split: list.splits)

lemma concat_readlines: "concat (readlines s) = universal_newlines s"
  by (simp add: readlines_def concat_split_lines)

lemma concat_readlines_unix: "CR \<notin> set s \<Longrightarrow> concat (readlines s) = s"
  by (simp add: concat_readlines universal_newlines_id)

subsection \<open>\<open>collect.py\<close>\<close>

text \<open>The attributes of a \<open>Collection\<close>\<close>

record collection =
  col_cfg :: config
  fn_prop :: "fn_meta list"
  cb_prop :: "sig list"
  var_prop :: "var_meta list"
  intf_prop :: "sig list"
  edge_prop :: "raw_edge list"
  col_structs :: "(string, struct_meta) dict"

definition new_collection :: "string \<Rightarrow> string \<Rightarrow> files \<Rightarrow> collection res" where
  "new_collection cwd tmp_dir fs =
     res_bind (read_file cwd fs (tmp_dir @ ''boundary.yaml'')) (\<lambda>c.
     res_bind (config_of c) (\<lambda>cfg.
       Inr \<lparr>col_cfg = cfg, fn_prop = [], cb_prop = [], var_prop = [], intf_prop = [], edge_prop = [], col_structs = []\<rparr>))"

text \<open>The callback of the plugin, called for every pass: the passes extend the attributes, which are then dumped.\<close>

definition collect_pass :: "string \<Rightarrow> gcc_unit \<Rightarrow> string \<Rightarrow> collection \<Rightarrow> files \<Rightarrow> (collection \<times> files) res" where
  "collect_pass cwd u pass c fs =
     res_bind (collect_info cwd (col_cfg c) pass u) (\<lambda>r.
       case r of
         None \<Rightarrow> Inr (c, fs)
       | Some m \<Rightarrow>
           let c = c\<lparr>fn_prop := fn_prop c @ m_fn m, cb_prop := cb_prop c @ m_callback m, var_prop := var_prop c @ m_var m,
                     intf_prop := intf_prop c @ m_interface m, edge_prop := edge_prop c @ m_edge m,
                     col_structs := fold (\<lambda>(k, s). AList.update k s) (m_struct m) (col_structs c)\<rparr>;
               dump = \<lparr>m_fn = fn_prop c, m_var = var_prop c, m_edge = edge_prop c, m_callback = cb_prop c,
                       m_interface = intf_prop c, m_struct = col_structs c\<rparr>
           in Inr (c, write_file cwd (u_main_input u @ ''.boundary'') (MetaFile dump) fs))"

fun collect_passes :: "string \<Rightarrow> gcc_unit \<Rightarrow> string list \<Rightarrow> collection \<Rightarrow> files \<Rightarrow> files \<times> unit res" where
  "collect_passes cwd u [] c fs = (fs, Inr ())"
| "collect_passes cwd u (p # ps) c fs =
     (case collect_pass cwd u p c fs of
        Inl e \<Rightarrow> (fs, Inl e)
      | Inr (c, fs) \<Rightarrow> collect_passes cwd u ps c fs)"

definition collect_main :: "string \<Rightarrow> string \<Rightarrow> string list \<Rightarrow> gcc_unit \<Rightarrow> files \<Rightarrow> files \<times> unit res" where
  "collect_main cwd tmp_dir passes u fs =
     (case new_collection cwd tmp_dir fs of
        Inl e \<Rightarrow> (fs, Inl e)
      | Inr c \<Rightarrow> collect_passes cwd u passes c fs)"

subsection \<open>\<open>analyze.py\<close>\<close>

text \<open>
  The configuration as it is dumped has the derived attribute \<open>sidecar\<close> and the classes in its
  function section.
\<close>

definition dumped_config :: "config \<Rightarrow> analysis \<Rightarrow> ex_config" where
  "dumped_config cfg a = \<lparr>x_cfg = cfg\<lparr>config_sidecar := Some (sidecar cfg)\<rparr>, x_function = a_function a\<rparr>"

text \<open>The files written before the export table\<close>

definition write_results :: "string \<Rightarrow> string \<Rightarrow> string \<Rightarrow> (sig set \<Rightarrow> sig list) \<Rightarrow> config \<Rightarrow> analysis \<Rightarrow> files \<Rightarrow> files" where
  "write_results cwd tmp_dir mod_path order cfg a fs =
     (let fs = write_file cwd (tmp_dir @ ''header_symbol.json'') (HeaderSymbols (a_hdr_fns a)) fs;
          fs = write_file cwd (tmp_dir @ ''boundary_doc.yaml'') (StructDoc (a_structs a)) fs;
          fs = write_file cwd (tmp_dir @ ''boundary_extract.yaml'') (ExtractConfig (dumped_config cfg a)) fs;
          fs = write_file cwd (mod_path @ ''tainted_functions.h'') (Text (concat (tainted_functions order a))) fs
      in write_file cwd (tmp_dir @ ''symbol_resolve/undefined_functions.h'') (Text (undefined_functions order a)) fs)"

definition run_analysis ::
  "string \<Rightarrow> string \<Rightarrow> (files \<Rightarrow> (string \<times> string list) list) \<Rightarrow> (sig set \<Rightarrow> sig list) \<Rightarrow> nat \<Rightarrow> string list \<Rightarrow>
   files \<Rightarrow> (config \<times> analysis) res" where
  "run_analysis cwd tmp_dir walk order depth elf fs =
     res_bind (read_file cwd fs (tmp_dir @ ''boundary.yaml'')) (\<lambda>c.
     res_bind (config_of c) (\<lambda>cfg.
     res_bind (read_metas (\<lambda>p. res_bind (read_file cwd fs p) meta_of) (walk fs)) (\<lambda>raw.
       res_map (Pair cfg) (analyze order depth cfg raw elf))))"

text \<open>\<open>export_jump.h\<close> is opened before its lines are computed: if that fails, the file is left empty.\<close>

definition analyze_main ::
  "string \<Rightarrow> string \<Rightarrow> string \<Rightarrow> (files \<Rightarrow> (string \<times> string list) list) \<Rightarrow> (sig set \<Rightarrow> sig list) \<Rightarrow> nat \<Rightarrow> string list \<Rightarrow>
   files \<Rightarrow> files \<times> unit res" where
  "analyze_main cwd tmp_dir mod_path walk order depth elf fs =
     (case run_analysis cwd tmp_dir walk order depth elf fs of
        Inl e \<Rightarrow> (fs, Inl e)
      | Inr (cfg, a) \<Rightarrow>
          let fs = write_results cwd tmp_dir mod_path order cfg a fs;
              fs = write_file cwd (mod_path @ ''export_jump.h'') (Text []) fs
          in (case export_jump order a of
                Inl e \<Rightarrow> (fs, Inl e)
              | Inr strs \<Rightarrow> (write_file cwd (mod_path @ ''export_jump.h'') (Text (concat strs)) fs, Inr ())))"

subsection \<open>\<open>extract.py\<close>\<close>

record extraction =
  ext_config :: ex_config
  meta_fn :: "fn_meta list"
  meta_var :: "var_meta list"

definition new_extraction :: "string \<Rightarrow> string \<Rightarrow> string \<Rightarrow> files \<Rightarrow> extraction res" where
  "new_extraction cwd src tmp_dir fs =
     res_bind (read_file cwd fs (tmp_dir @ ''boundary_extract.yaml'')) (\<lambda>c.
     res_bind (ex_config_of c) (\<lambda>x.
     res_bind (read_file cwd fs (meta_file (x_cfg x) tmp_dir src)) (\<lambda>m.
     res_bind (symbols_of m) (\<lambda>(fns, vars).
       Inr \<lparr>ext_config = x, meta_fn = fns, meta_var = vars\<rparr>))))"

text \<open>
  The source is opened, then the target, which empties it; the lines are read, edited and
  written. If an edit raises, the target stays empty.
\<close>

definition extract_main :: "string \<Rightarrow> string \<Rightarrow> string \<Rightarrow> string \<Rightarrow> files \<Rightarrow> files \<times> unit res" where
  "extract_main cwd tmp_dir mod_dir src fs =
     (case res_bind (new_extraction cwd src tmp_dir fs) (\<lambda>e.
             res_bind (function_location (ext_config e) src (meta_fn e)) (\<lambda>fns.
             res_bind (read_file cwd fs src) (\<lambda>_. Inr (e, fns)))) of
        Inl err \<Rightarrow> (fs, Inl err)
      | Inr (e, fns) \<Rightarrow>
          let x = ext_config e; dst = dst_file (x_cfg x) mod_dir src;
              vars = var_location x src (meta_var e);
              fs = write_file cwd dst (Text []) fs
          in (case res_bind (res_bind (read_file cwd fs src) text_of) (\<lambda>s.
                     res_bind (function_extract x fns (readlines s)) (\<lambda>ls.
                     res_bind (var_extract vars ls) (fix_up cwd (x_cfg x) src dst))) of
                Inl err \<Rightarrow> (fs, Inl err)
              | Inr ls \<Rightarrow> (write_file cwd dst (Text (concat ls)) fs, Inr ())))"

subsection \<open>Which files a program touches\<close>

lemma write_file_at: "write_file cwd p c fs q = (if q = abspath cwd p then Some c else fs q)"
  by (simp add: write_file_def)

lemma read_write_file: "read_file cwd (write_file cwd q c fs) p =
    (if abspath cwd p = abspath cwd q then Inr c else read_file cwd fs p)"
  by (simp add: read_file_def write_file_at)

lemma read_file_same: "fs (abspath cwd p) = gs (abspath cwd p) \<Longrightarrow> read_file cwd fs p = read_file cwd gs p"
  by (simp add: read_file_def)

definition collect_reads :: "string \<Rightarrow> string \<Rightarrow> gcc_unit \<Rightarrow> string set" where
  "collect_reads cwd tmp_dir u = {abspath cwd (tmp_dir @ ''boundary.yaml'')}"

definition collect_writes :: "string \<Rightarrow> gcc_unit \<Rightarrow> string set" where
  "collect_writes cwd u = {abspath cwd (u_main_input u @ ''.boundary'')}"

text \<open>A pass either fails, or leaves the files, or writes the metadata file, whatever the other files are.\<close>

lemma collect_pass_cases:
  obtains (error) e where "\<And>fs. collect_pass cwd u pass c fs = Inl e"
  | (same) "\<And>fs. collect_pass cwd u pass c fs = Inr (c, fs)"
  | (dump) c' m where "\<And>fs. collect_pass cwd u pass c fs =
      Inr (c', write_file cwd (u_main_input u @ ''.boundary'') (MetaFile m) fs)"
proof (cases "collect_info cwd (col_cfg c) pass u")
  case (Inl e)
  then show ?thesis by (intro error) (simp add: collect_pass_def)
next
  case (Inr r)
  then show ?thesis
  proof (cases r)
    case None
    with Inr show ?thesis by (intro same) (simp add: collect_pass_def)
  next
    case (Some m)
    with Inr show ?thesis by (intro dump) (simp add: collect_pass_def Let_def)
  qed
qed

lemma collect_passes_frame: "p \<notin> collect_writes cwd u \<Longrightarrow> fst (collect_passes cwd u ps c fs) p = fs p"
proof (induction ps arbitrary: c fs)
  case (Cons q ps)
  show ?case
    by (rule collect_pass_cases [where cwd = cwd and u = u and pass = q and c = c])
      (use Cons in \<open>simp_all add: write_file_at collect_writes_def\<close>)
qed simp

lemma collect_passes_local:
  "(\<And>p. p \<in> collect_writes cwd u \<Longrightarrow> fs p = gs p) \<Longrightarrow>
     snd (collect_passes cwd u ps c fs) = snd (collect_passes cwd u ps c gs) \<and>
     (\<forall>p \<in> collect_writes cwd u. fst (collect_passes cwd u ps c fs) p = fst (collect_passes cwd u ps c gs) p)"
proof (induction ps arbitrary: c fs gs)
  case (Cons q ps)
  show ?case
  proof (rule collect_pass_cases [where cwd = cwd and u = u and pass = q and c = c])
    fix c' m
    assume dump: "\<And>fs. collect_pass cwd u q c fs = Inr (c', write_file cwd (u_main_input u @ ''.boundary'') (MetaFile m) fs)"
    show ?thesis unfolding collect_passes.simps dump sum.case prod.case
      by (rule Cons.IH) (simp add: write_file_at collect_writes_def)
  next
    assume same: "\<And>fs. collect_pass cwd u q c fs = Inr (c, fs)"
    show ?thesis unfolding collect_passes.simps same sum.case prod.case by (rule Cons.IH) (rule Cons.prems)
  next
    fix e assume error: "\<And>fs. collect_pass cwd u q c fs = Inl e"
    show ?thesis unfolding collect_passes.simps error sum.case using Cons.prems by simp
  qed
qed simp

lemma collect_main_local:
  assumes "\<And>p. p \<in> collect_reads cwd tmp_dir u \<union> collect_writes cwd u \<Longrightarrow> fs p = gs p"
  shows "snd (collect_main cwd tmp_dir passes u fs) = snd (collect_main cwd tmp_dir passes u gs) \<and>
    (\<forall>p \<in> collect_writes cwd u. fst (collect_main cwd tmp_dir passes u fs) p = fst (collect_main cwd tmp_dir passes u gs) p)"
proof -
  have "read_file cwd fs (tmp_dir @ ''boundary.yaml'') = read_file cwd gs (tmp_dir @ ''boundary.yaml'')"
    using assms by (intro read_file_same) (simp add: collect_reads_def)
  then have new: "new_collection cwd tmp_dir fs = new_collection cwd tmp_dir gs" by (simp add: new_collection_def)
  show ?thesis
  proof (cases "new_collection cwd tmp_dir gs")
    case (Inl e)
    with assms show ?thesis by (simp add: collect_main_def new)
  next
    case (Inr c)
    show ?thesis unfolding collect_main_def new Inr sum.case
      by (rule collect_passes_local) (use assms in blast)
  qed
qed

interpretation collecting: file_tasks "collect_main cwd tmp_dir passes" "collect_reads cwd tmp_dir" "collect_writes cwd"
  for cwd tmp_dir passes
proof
  fix p u fs assume "p \<notin> collect_writes cwd u"
  then show "fst (collect_main cwd tmp_dir passes u fs) p = fs p"
    by (simp add: collect_main_def collect_passes_frame split: sum.split)
next
  fix u p and fs gs :: files
  assume same: "\<And>p. p \<in> collect_reads cwd tmp_dir u \<union> collect_writes cwd u \<Longrightarrow> fs p = gs p"
  from collect_main_local [where fs = fs and gs = gs and cwd = cwd and tmp_dir = tmp_dir and u = u, OF same]
  show "snd (collect_main cwd tmp_dir passes u fs) = snd (collect_main cwd tmp_dir passes u gs)"
    "p \<in> collect_writes cwd u \<Longrightarrow> fst (collect_main cwd tmp_dir passes u fs) p = fst (collect_main cwd tmp_dir passes u gs) p"
    by blast+
qed

definition extract_reads :: "string \<Rightarrow> string \<Rightarrow> string \<Rightarrow> string set" where
  "extract_reads cwd tmp_dir src = abspath cwd ` {tmp_dir @ ''boundary_extract.yaml'', tmp_dir @ ''header_symbol.json'',
     src @ ''.boundary'', src}"

definition extract_writes :: "string \<Rightarrow> string \<Rightarrow> string \<Rightarrow> string set" where
  "extract_writes cwd mod_dir src = abspath cwd ` {mod_dir @ src, mod_dir @ basename src}"

lemma extract_main_local:
  assumes "\<And>p. p \<in> extract_reads cwd tmp_dir src \<union> extract_writes cwd mod_dir src \<Longrightarrow> fs p = gs p"
  shows "snd (extract_main cwd tmp_dir mod_dir src fs) = snd (extract_main cwd tmp_dir mod_dir src gs) \<and>
    (\<forall>p \<in> extract_reads cwd tmp_dir src \<union> extract_writes cwd mod_dir src.
      fst (extract_main cwd tmp_dir mod_dir src fs) p = fst (extract_main cwd tmp_dir mod_dir src gs) p)"
proof -
  have read: "read_file cwd fs p = read_file cwd gs p"
    if "p \<in> {tmp_dir @ ''boundary_extract.yaml'', tmp_dir @ ''header_symbol.json'', src @ ''.boundary'', src}" for p
    using assms that by (intro read_file_same) (auto simp: extract_reads_def)
  have new: "new_extraction cwd src tmp_dir fs = new_extraction cwd src tmp_dir gs"
    using read by (simp add: new_extraction_def meta_file_def cong: if_cong)
  have src: "read_file cwd (write_file cwd d c fs) src = read_file cwd (write_file cwd d c gs) src" for d c
    using read [of src] by (simp add: read_write_file)
  show ?thesis
    unfolding extract_main_def new read [of src, simplified] Let_def src
    using assms by (auto simp: write_file_at split: sum.split)
qed

lemma extract_main_frame: "p \<notin> extract_writes cwd mod_dir src \<Longrightarrow> fst (extract_main cwd tmp_dir mod_dir src fs) p = fs p"
  by (auto simp: extract_main_def Let_def write_file_at extract_writes_def dst_file_def split: sum.split)

interpretation extracting: file_tasks "extract_main cwd tmp_dir mod_dir" "extract_reads cwd tmp_dir" "extract_writes cwd mod_dir"
  for cwd tmp_dir mod_dir
proof
  fix src p and fs gs :: files
  assume same: "\<And>p. p \<in> extract_reads cwd tmp_dir src \<union> extract_writes cwd mod_dir src \<Longrightarrow> fs p = gs p"
  from extract_main_local [where fs = fs and gs = gs and cwd = cwd and tmp_dir = tmp_dir and mod_dir = mod_dir and src = src, OF same]
  show "snd (extract_main cwd tmp_dir mod_dir src fs) = snd (extract_main cwd tmp_dir mod_dir src gs)"
    "p \<in> extract_writes cwd mod_dir src \<Longrightarrow>
      fst (extract_main cwd tmp_dir mod_dir src fs) p = fst (extract_main cwd tmp_dir mod_dir src gs) p"
    by blast+
qed (rule extract_main_frame)

subsection \<open>What the programs leave behind\<close>

definition FLD :: string where "FLD = ''*free_lang_data''"

lemma update_new: "k \<notin> fst ` set ys \<Longrightarrow> AList.update k v ys = ys @ [(k, v)]"
  by (induction ys) auto

lemma fold_update_append: "distinct (map fst (ys @ xs)) \<Longrightarrow> fold (\<lambda>(k, s). AList.update k s) xs ys = ys @ xs"
proof (induction xs arbitrary: ys)
  case (Cons x xs)
  obtain k s where x: "x = (k, s)" by fastforce
  with Cons.prems have "k \<notin> fst ` set ys" by auto
  then have "AList.update k s ys = ys @ [x]" by (simp add: x update_new)
  with Cons.IH [of "ys @ [x]"] Cons.prems x show ?case by simp
qed simp

lemma collect_struct_distinct: "collect_struct cwd cfg u = Inr d \<Longrightarrow> distinct (map fst d)"
proof -
  assume "collect_struct cwd cfg u = Inr d"
  then obtain pf :: public_uses where "res_fold (struct_entry cwd) (map snd pf) [] = Inr d" by (auto simp: collect_struct_def res_elims)
  then show ?thesis
    by (rule res_fold_invariant [where I = "\<lambda>d. distinct (map fst d)"])
      (auto simp: struct_entry_def res_elims distinct_update split: prod.splits)
qed

lemma collect_pass_other: "pass \<noteq> FLD \<Longrightarrow> collect_pass cwd u pass c fs = Inr (c, fs)"
  by (simp add: collect_pass_def collect_info_def FLD_def)

lemma collect_passes_other: "FLD \<notin> set ps \<Longrightarrow> collect_passes cwd u ps c fs = (fs, Inr ())"
  by (induction ps) (auto simp: collect_pass_other [OF not_sym])

lemma collect_passes_run:
  assumes "filter (\<lambda>p. p = FLD) ps = [FLD]" "collect_info cwd cfg FLD u = Inr (Some m)"
    and "c = \<lparr>col_cfg = cfg, fn_prop = [], cb_prop = [], var_prop = [], intf_prop = [], edge_prop = [], col_structs = []\<rparr>"
  shows "collect_passes cwd u ps c fs = (write_file cwd (u_main_input u @ ''.boundary'') (MetaFile m) fs, Inr ())"
  using assms(1)
proof (induction ps)
  case (Cons p ps)
  show ?case
  proof (cases "p = FLD")
    case False
    with Cons show ?thesis by (simp add: collect_pass_other)
  next
    case True
    with Cons.prems have rest: "FLD \<notin> set ps" by (auto simp: filter_empty_conv)
    have "distinct (map fst (m_struct m))"
      using collect_info_run(3) [OF assms(2)] by (rule collect_struct_distinct)
    then have "fold (\<lambda>(k, s). AList.update k s) (m_struct m) [] = m_struct m"
      using fold_update_append [of "[]"] by simp
    moreover have eta: "\<lparr>m_fn = m_fn m, m_var = m_var m, m_edge = m_edge m, m_callback = m_callback m,
        m_interface = m_interface m, m_struct = m_struct m\<rparr> = m" by simp
    ultimately obtain c' where
      "collect_pass cwd u FLD c fs = Inr (c', write_file cwd (u_main_input u @ ''.boundary'') (MetaFile m) fs)"
      using assms(2,3) by (simp add: collect_pass_def Let_def eta)
    with True show ?thesis by (simp add: collect_passes_other [OF rest])
  qed
qed simp

lemma collect_passes_raises:
  assumes "FLD \<in> set ps" "collect_info cwd (col_cfg c) FLD u = Inl e"
  shows "snd (collect_passes cwd u ps c fs) \<noteq> Inr ()"
  using assms(1)
proof (induction ps)
  case (Cons p ps)
  with assms(2) show ?case by (cases "p = FLD") (simp_all add: collect_pass_other, simp add: collect_pass_def)
qed simp

lemma collect_passes_once:
  assumes "collect_passes cwd u ps c fs = (fs', Inr ())" "filter (\<lambda>p. p = FLD) ps = [FLD]"
    and "c = \<lparr>col_cfg = cfg, fn_prop = [], cb_prop = [], var_prop = [], intf_prop = [], edge_prop = [], col_structs = []\<rparr>"
  shows "\<exists>m. collect_info cwd cfg FLD u = Inr (Some m) \<and> fs' (abspath cwd (u_main_input u @ ''.boundary'')) = Some (MetaFile m)"
proof -
  from assms(2) have "FLD \<in> set (filter (\<lambda>p. p = FLD) ps)" by simp
  then have "FLD \<in> set ps" by simp
  with collect_passes_raises [of ps cwd c u _ fs] assms(1,3) obtain r where r: "collect_info cwd cfg FLD u = Inr r"
    by (cases "collect_info cwd cfg FLD u") auto
  then obtain m where m: "r = Some m" by (auto simp: collect_info_def FLD_def res_elims)
  from collect_passes_run [OF assms(2) r [unfolded m] assms(3), of fs] assms(1) r m show ?thesis
    by (auto simp: write_file_at)
qed

lemma collect_main_run:
  assumes "fs (abspath cwd (tmp_dir @ ''boundary.yaml'')) = Some (ConfigFile cfg)" "filter (\<lambda>p. p = FLD) ps = [FLD]"
    and "collect_info cwd cfg FLD u = Inr (Some m)"
  shows "collect_main cwd tmp_dir ps u fs = (write_file cwd (u_main_input u @ ''.boundary'') (MetaFile m) fs, Inr ())"
  using collect_passes_run [OF assms(2,3) refl] assms(1)
  by (simp add: collect_main_def new_collection_def read_file_def config_of_def)

lemma collect_main_meta:
  assumes "collect_main cwd tmp_dir ps u fs = (fs', Inr ())" "filter (\<lambda>p. p = FLD) ps = [FLD]"
  shows "\<exists>cfg m. fs (abspath cwd (tmp_dir @ ''boundary.yaml'')) = Some (ConfigFile cfg) \<and>
    collect_info cwd cfg FLD u = Inr (Some m) \<and> fs' (abspath cwd (u_main_input u @ ''.boundary'')) = Some (MetaFile m)"
proof -
  from assms(1) obtain c where c: "new_collection cwd tmp_dir fs = Inr c" "collect_passes cwd u ps c fs = (fs', Inr ())"
    by (auto simp: collect_main_def split: sum.splits)
  from c(1) obtain cfg where cfg: "fs (abspath cwd (tmp_dir @ ''boundary.yaml'')) = Some (ConfigFile cfg)"
    "c = \<lparr>col_cfg = cfg, fn_prop = [], cb_prop = [], var_prop = [], intf_prop = [], edge_prop = [], col_structs = []\<rparr>"
    by (auto simp: new_collection_def read_file_def config_of_def res_elims split: option.splits content.splits)
  from collect_passes_once [OF c(2) assms(2) cfg(2)] cfg(1) show ?thesis by blast
qed

text \<open>The six files of an analysis are different files.\<close>

definition analysis_writes :: "string \<Rightarrow> string \<Rightarrow> string \<Rightarrow> string list" where
  "analysis_writes cwd tmp_dir mod_path = map (abspath cwd)
     [tmp_dir @ ''header_symbol.json'', tmp_dir @ ''boundary_doc.yaml'', tmp_dir @ ''boundary_extract.yaml'',
      mod_path @ ''tainted_functions.h'', tmp_dir @ ''symbol_resolve/undefined_functions.h'', mod_path @ ''export_jump.h'']"

definition separate_results :: "string \<Rightarrow> string \<Rightarrow> string \<Rightarrow> bool" where
  "separate_results cwd tmp_dir mod_path = distinct (analysis_writes cwd tmp_dir mod_path)"

lemma analyze_main_frame:
  assumes "p \<notin> set (analysis_writes cwd tmp_dir mod_path)"
  shows "fst (analyze_main cwd tmp_dir mod_path walk order depth elf fs) p = fs p"
  using assms
  by (auto simp: analyze_main_def write_results_def analysis_writes_def Let_def write_file_at split: sum.splits)

lemma analyze_main_ok:
  assumes "analyze_main cwd tmp_dir mod_path walk order depth elf fs = (fs', Inr ())"
  shows "\<exists>cfg a strs. run_analysis cwd tmp_dir walk order depth elf fs = Inr (cfg, a) \<and> export_jump order a = Inr strs \<and>
    fs' = write_file cwd (mod_path @ ''export_jump.h'') (Text (concat strs)) (write_results cwd tmp_dir mod_path order cfg a fs)"
  using assms by (auto simp: analyze_main_def Let_def write_file_def split: sum.splits prod.splits)

lemma write_results_files:
  assumes "separate_results cwd tmp_dir mod_path"
  shows "write_results cwd tmp_dir mod_path order cfg a fs (abspath cwd (tmp_dir @ ''boundary_extract.yaml'')) =
      Some (ExtractConfig (dumped_config cfg a))"
    "write_results cwd tmp_dir mod_path order cfg a fs (abspath cwd (tmp_dir @ ''header_symbol.json'')) =
      Some (HeaderSymbols (a_hdr_fns a))"
    "write_results cwd tmp_dir mod_path order cfg a fs (abspath cwd (mod_path @ ''tainted_functions.h'')) =
      Some (Text (concat (tainted_functions order a)))"
  using assms by (auto simp: write_results_def Let_def write_file_at separate_results_def analysis_writes_def)

lemma run_analysis_meta:
  assumes "run_analysis cwd tmp_dir walk order depth elf fs = Inr (cfg, a)"
  shows "fs (abspath cwd (tmp_dir @ ''boundary.yaml'')) = Some (ConfigFile cfg) \<and>
    (\<exists>raw. read_metas (\<lambda>p. res_bind (read_file cwd fs p) meta_of) (walk fs) = Inr raw \<and> analyze order depth cfg raw elf = Inr a)"
  using assms by (auto simp: run_analysis_def read_file_def config_of_def res_elims split: option.splits content.splits)

lemma extract_main_ok:
  assumes "extract_main cwd tmp_dir mod_dir src fs = (fs', Inr ())"
    and "extract_writes cwd mod_dir src \<inter> extract_reads cwd tmp_dir src = {}"
  shows "\<exists>x fns vars s ls. fs (abspath cwd (tmp_dir @ ''boundary_extract.yaml'')) = Some (ExtractConfig x) \<and>
    res_bind (read_file cwd fs (meta_file (x_cfg x) tmp_dir src)) symbols_of = Inr (fns, vars) \<and>
    fs (abspath cwd src) = Some (Text s) \<and> extract_file cwd mod_dir x src fns vars (readlines s) = Inr ls \<and>
    fs' (abspath cwd (dst_file (x_cfg x) mod_dir src)) = Some (Text (concat ls))"
proof -
  from assms(1) obtain e fns where e: "new_extraction cwd src tmp_dir fs = Inr e"
    "function_location (ext_config e) src (meta_fn e) = Inr fns"
    and run: "extract_main cwd tmp_dir mod_dir src fs = (let x = ext_config e; dst = dst_file (x_cfg x) mod_dir src;
              vars = var_location x src (meta_var e);
              fs = write_file cwd dst (Text []) fs
          in (case res_bind (res_bind (read_file cwd fs src) text_of) (\<lambda>s.
                     res_bind (function_extract x fns (readlines s)) (\<lambda>ls.
                     res_bind (var_extract vars ls) (fix_up cwd (x_cfg x) src dst))) of
                Inl err \<Rightarrow> (fs, Inl err)
              | Inr ls \<Rightarrow> (write_file cwd dst (Text (concat ls)) fs, Inr ())))"
    by (auto simp: extract_main_def split: sum.splits) (auto simp: res_elims)
  let ?x = "ext_config e" and ?dst = "dst_file (x_cfg (ext_config e)) mod_dir src"
  from e(1) have conf: "fs (abspath cwd (tmp_dir @ ''boundary_extract.yaml'')) = Some (ExtractConfig ?x)"
    and syms: "res_bind (read_file cwd fs (meta_file (x_cfg ?x) tmp_dir src)) symbols_of = Inr (meta_fn e, meta_var e)"
    by (auto simp: new_extraction_def read_file_def ex_config_of_def res_elims split: option.splits content.splits)
  have "abspath cwd ?dst \<in> extract_writes cwd mod_dir src" by (simp add: extract_writes_def dst_file_def)
  with assms(2) have "abspath cwd src \<noteq> abspath cwd ?dst" by (auto simp: extract_reads_def)
  then have src: "read_file cwd (write_file cwd ?dst (Text []) fs) src = read_file cwd fs src" by (simp add: read_write_file)
  from run [unfolded assms(1) Let_def src] obtain s ls fs1 vs where
    s: "res_bind (read_file cwd fs src) text_of = Inr s"
    and ls: "function_extract ?x fns (readlines s) = Inr fs1" "var_extract (var_location ?x src (meta_var e)) fs1 = Inr vs"
      "fix_up cwd (x_cfg ?x) src ?dst vs = Inr ls"
    and fs': "fs' = write_file cwd ?dst (Text (concat ls)) (write_file cwd ?dst (Text []) fs)"
    by (auto simp: res_elims split: sum.splits)
  from s have "fs (abspath cwd src) = Some (Text s)"
    by (auto simp: read_file_def text_of_def res_elims split: option.splits content.splits)
  moreover have "extract_file cwd mod_dir ?x src (meta_fn e) (meta_var e) (readlines s) = Inr ls"
    by (simp add: extract_file_def e(2) ls Let_def)
  ultimately show ?thesis using conf syms fs' by (intro exI conjI) (auto simp: write_file_at)
qed

text \<open>And conversely\<close>

lemma extract_main_run:
  assumes "fs (abspath cwd (tmp_dir @ ''boundary_extract.yaml'')) = Some (ExtractConfig x)"
    and "res_bind (read_file cwd fs (meta_file (x_cfg x) tmp_dir src)) symbols_of = Inr (fns, vars)"
    and "fs (abspath cwd src) = Some (Text s)" "extract_file cwd mod_dir x src fns vars (readlines s) = Inr ls"
    and "abspath cwd src \<noteq> abspath cwd (dst_file (x_cfg x) mod_dir src)"
  shows "snd (extract_main cwd tmp_dir mod_dir src fs) = Inr ()"
proof -
  from assms(4) obtain l where "function_location x src fns = Inr l" by (auto simp: extract_file_def res_elims)
  moreover from assms(1,2) have "new_extraction cwd src tmp_dir fs = Inr \<lparr>ext_config = x, meta_fn = fns, meta_var = vars\<rparr>"
    by (auto simp: new_extraction_def read_file_def ex_config_of_def res_elims)
  moreover have "read_file cwd fs src = Inr (Text s)" using assms(3) by (simp add: read_file_def)
  ultimately show ?thesis
    using assms(4,5) by (simp add: extract_main_def extract_file_def Let_def read_write_file text_of_def)
qed

subsection \<open>The export table\<close>

text \<open>A set of functions for which \<open>get_func_decl_strs\<close> gives lines\<close>

definition exportable :: "analysis \<Rightarrow> sig set \<Rightarrow> bool" where
  "exportable a S \<longleftrightarrow> (\<forall>sg \<in> S. \<exists>d. a_decls a sg = Some (Some d)) \<and> inj_on fst {sg \<in> S. is_local_sym (a_globals a) sg}"

definition jump_lines :: "analysis \<Rightarrow> string set" where
  "jump_lines a = decl_images (a_decls a) ''EXPORT_CALLBACK'' (callback (a_class a)) \<union>
     decl_images (a_decls a) ''EXPORT_PLUGSCHED'' (interface (a_class a) \<union> fc_sidecar (a_class a))"

lemma decl_strs_outcome:
  assumes "iterates order" "finite S"
  shows "if exportable a S
    then get_func_decl_strs (a_decls a) (a_globals a) (order S) macro = Inr (decl_images (a_decls a) macro S)
    else isl (get_func_decl_strs (a_decls a) (a_globals a) (order S) macro)"
proof -
  from assms have "set (order S) = S" "distinct (order S)" by (simp_all add: iterates_def)
  note iff = get_func_decl_strs_Inr [OF this(2), of "a_decls a" "a_globals a" macro, unfolded this(1), folded exportable_def]
  show ?thesis
  proof (cases "get_func_decl_strs (a_decls a) (a_globals a) (order S) macro")
    case (Inl e)
    with iff show ?thesis by (auto simp: exportable_def)
  next
    case (Inr T)
    with iff [of T] show ?thesis by (simp add: exportable_def)
  qed
qed

lemma decl_images_Un: "decl_images ds macro (S \<union> T) = decl_images ds macro S \<union> decl_images ds macro T"
  by (auto simp: decl_images_def)

lemma export_jump_outcome:
  assumes "analyze order' depth cfg raw elf = Inr a" "iterates order"
  shows "if exportable a (callback (a_class a)) \<and> exportable a (interface (a_class a)) \<and> exportable a (fc_sidecar (a_class a))
    then export_jump order a = Inr (sorted_list_of_set (jump_lines a)) else isl (export_jump order a)"
proof -
  from analyze_run [OF assms(1)] obtain l vm where
    "func_class_arithmetics depth cfg (a_metas a) (a_edges a) (start_class cfg raw l vm) = Inr (a_class a)" by metis
  note fin = finite_border(2-4) [OF this]
  note outcomes = decl_strs_outcome [OF assms(2) fin(2), of a "''EXPORT_CALLBACK''"]
    decl_strs_outcome [OF assms(2) fin(3), of a "''EXPORT_PLUGSCHED''"]
    decl_strs_outcome [OF assms(2) fin(1), of a "''EXPORT_PLUGSCHED''"]
  show ?thesis
    using outcomes
    by (auto simp: export_jump_def Let_def jump_lines_def decl_images_Un Un_assoc split: if_splits sum.splits
        simp: isl_def)
qed

end
