(* ===== verification/Pipeline.thy ===== *)
theory Pipeline
  imports Files
begin

text \<open>
  The stages as \<open>cli.py\<close> and \<open>Makefile.plugsched\<close> run them: the compiler collects the units,
  in parallel and in any order; then the analysis; then the extraction of the files, again
  in any order. Each program is one step. The step relation leaves the order open; the
  function \<open>run_pipeline\<close> runs one job at a time, in the order of the lists. Make runs a target
  once even if it is listed twice: the lists of units and of sources have no duplicates. The
  \<open>make olddefconfig\<close> that \<open>Plugsched.extract\<close> runs before the three stages only writes the
  kernel configuration, which no program here reads; the theory \<open>Cli\<close> has it.
\<close>

text \<open>
  What the programs are given: their directories and the working directory, the passes GCC
  runs over a unit, what \<open>os.walk\<close> answers, the order in which sets are iterated, the depth of
  nested calls, and the lines of \<open>readelf\<close>.
\<close>

record env =
  e_cwd :: string
  e_tmp :: string
  e_mod :: string
  e_passes :: "string list"
  e_walk :: "files \<Rightarrow> (string \<times> string list) list"
  e_order :: "sig set \<Rightarrow> sig list"
  e_depth :: nat
  e_elf :: "string list"

text \<open>
  Before the analysis the makefile deletes the metadata of code that is not linked into
  vmlinux: below a directory \<open>compressed\<close> under \<open>arch\<close>, and in \<open>drivers/firmware/efi/libstub\<close>.
  A path relative to the kernel is given by its components.
\<close>

fun stale_comps :: "string list \<Rightarrow> bool" where
  "stale_comps [] = False"
| "stale_comps (d # ds) =
     (ds \<noteq> [] \<and> ends_with (last ds) ''.c.boundary'' \<and>
      ((d = ''arch'' \<and> ''compressed'' \<in> set (butlast ds)) \<or>
       (d = ''drivers'' \<and> butlast ds = [''firmware'', ''efi'', ''libstub''] \<and> \<not> starts_with (last ds) ''.'')))"

definition is_stale :: "string \<Rightarrow> string \<Rightarrow> bool" where
  "is_stale cwd p =
     (let root = filter (\<lambda>c. c \<noteq> []) (split_on (CHR ''/'') cwd); cs = filter (\<lambda>c. c \<noteq> []) (split_on (CHR ''/'') p)
      in take (length root) cs = root \<and> stale_comps (drop (length root) cs))"

definition remove_stale :: "string \<Rightarrow> files \<Rightarrow> files" where
  "remove_stale cwd fs = (\<lambda>p. if is_stale cwd p then None else fs p)"

definition collect_stage :: "env \<Rightarrow> gcc_unit \<Rightarrow> files \<Rightarrow> files \<times> unit res" where
  "collect_stage env = collect_main (e_cwd env) (e_tmp env) (e_passes env)"

definition analyze_stage :: "env \<Rightarrow> files \<Rightarrow> files \<times> unit res" where
  "analyze_stage env fs =
     analyze_main (e_cwd env) (e_tmp env) (e_mod env) (e_walk env) (e_order env) (e_depth env) (e_elf env)
       (remove_stale (e_cwd env) fs)"

definition extract_stage :: "env \<Rightarrow> string \<Rightarrow> files \<Rightarrow> files \<times> unit res" where
  "extract_stage env = extract_main (e_cwd env) (e_tmp env) (e_mod env)"

subsection \<open>Steps\<close>

datatype stage =
    Collecting "gcc_unit list"
  | Analysing
  | Extracting "string list"
  | Finished
  | Stopped py_error

inductive pipe_step :: "env \<Rightarrow> string list \<Rightarrow> stage \<times> files \<Rightarrow> stage \<times> files \<Rightarrow> bool" for env objs where
  collect: "u \<in> set us \<Longrightarrow> collect_stage env u fs = (fs', Inr ()) \<Longrightarrow>
     pipe_step env objs (Collecting us, fs) (Collecting (remove1 u us), fs')"
| collect_fails: "u \<in> set us \<Longrightarrow> collect_stage env u fs = (fs', Inl e) \<Longrightarrow>
     pipe_step env objs (Collecting us, fs) (Stopped e, fs')"
| collected: "pipe_step env objs (Collecting [], fs) (Analysing, fs)"
| analyze: "analyze_stage env fs = (fs', Inr ()) \<Longrightarrow>
     pipe_step env objs (Analysing, fs) (Extracting objs, fs')"
| analyze_fails: "analyze_stage env fs = (fs', Inl e) \<Longrightarrow>
     pipe_step env objs (Analysing, fs) (Stopped e, fs')"
| extract_one: "src \<in> set srcs \<Longrightarrow> extract_stage env src fs = (fs', Inr ()) \<Longrightarrow>
     pipe_step env objs (Extracting srcs, fs) (Extracting (remove1 src srcs), fs')"
| extract_fails: "src \<in> set srcs \<Longrightarrow> extract_stage env src fs = (fs', Inl e) \<Longrightarrow>
     pipe_step env objs (Extracting srcs, fs) (Stopped e, fs')"
| extracted: "pipe_step env objs (Extracting [], fs) (Finished, fs)"

inductive_cases pipe_stepE:
  "pipe_step env objs (Collecting us, fs) st" "pipe_step env objs (Analysing, fs) st"
  "pipe_step env objs (Extracting srcs, fs) st" "pipe_step env objs (Finished, fs) st" "pipe_step env objs (Stopped e, fs) st"

definition run_pipeline :: "env \<Rightarrow> string list \<Rightarrow> gcc_unit list \<Rightarrow> files \<Rightarrow> files \<times> unit res" where
  "run_pipeline env objs us fs =
     (case run_seq (collect_stage env) us fs of
        (fs, Inl e) \<Rightarrow> (fs, Inl e)
      | (fs, Inr _) \<Rightarrow>
          (case analyze_stage env fs of
             (fs, Inl e) \<Rightarrow> (fs, Inl e)
           | (fs, Inr _) \<Rightarrow> run_seq (extract_stage env) objs fs))"

text \<open>No job writes a file that it or another job of its stage reads, or that another one writes.\<close>

definition separate_jobs :: "env \<Rightarrow> string list \<Rightarrow> gcc_unit list \<Rightarrow> bool" where
  "separate_jobs env objs us \<longleftrightarrow> distinct us \<and> distinct objs \<and>
     independent (collect_reads (e_cwd env) (e_tmp env)) (collect_writes (e_cwd env)) (set us) \<and>
     independent (extract_reads (e_cwd env) (e_tmp env)) (extract_writes (e_cwd env) (e_mod env)) (set objs) \<and>
     (\<forall>u \<in> set us. collect_writes (e_cwd env) u \<inter> collect_reads (e_cwd env) (e_tmp env) u = {}) \<and>
     (\<forall>src \<in> set objs. extract_writes (e_cwd env) (e_mod env) src \<inter> extract_reads (e_cwd env) (e_tmp env) src = {})"

subsection \<open>Every interleaving is the sequential run\<close>

definition pipe_inv :: "env \<Rightarrow> string list \<Rightarrow> gcc_unit list \<Rightarrow> files \<Rightarrow> stage \<times> files \<Rightarrow> bool" where
  "pipe_inv env objs us fs0 = (\<lambda>(st, fs).
     case st of
       Collecting rest \<Rightarrow> in_progress (collect_stage env) us fs0 rest fs
     | Analysing \<Rightarrow> run_seq (collect_stage env) us fs0 = (fs, Inr ())
     | Extracting rest \<Rightarrow> (\<exists>fs1 fs2. run_seq (collect_stage env) us fs0 = (fs1, Inr ()) \<and>
         analyze_stage env fs1 = (fs2, Inr ()) \<and> in_progress (extract_stage env) objs fs2 rest fs)
     | Finished \<Rightarrow> run_pipeline env objs us fs0 = (fs, Inr ())
     | Stopped e \<Rightarrow> snd (run_pipeline env objs us fs0) \<noteq> Inr ())"

lemma run_pipeline_Inr:
  "run_pipeline env objs us fs0 = (fs, Inr ()) \<longleftrightarrow>
     (\<exists>fs1 fs2. run_seq (collect_stage env) us fs0 = (fs1, Inr ()) \<and> analyze_stage env fs1 = (fs2, Inr ()) \<and>
        run_seq (extract_stage env) objs fs2 = (fs, Inr ()))"
  by (auto simp: run_pipeline_def split: prod.splits sum.splits)

lemma pipeline_not_ok:
  "(\<And>fs. run_pipeline env objs us fs0 \<noteq> (fs, Inr ())) \<Longrightarrow> snd (run_pipeline env objs us fs0) \<noteq> Inr ()"
  by (metis prod.collapse)

lemma pipe_step_inv:
  assumes sep: "separate_jobs env objs us"
  shows "pipe_step env objs s t \<Longrightarrow> pipe_inv env objs us fs0 s \<Longrightarrow> pipe_inv env objs us fs0 t"
proof (induction rule: pipe_step.induct)
  case (collect u rest fs fs')
  with sep show ?case
    by (simp add: pipe_inv_def separate_jobs_def collect_stage_def collecting.in_progress_step)
next
  case (collect_fails u rest fs fs' e)
  with sep have "snd (run_seq (collect_stage env) us fs0) \<noteq> Inr ()"
    unfolding collect_stage_def pipe_inv_def separate_jobs_def by (intro collecting.in_progress_fails) auto
  then have "run_pipeline env objs us fs0 \<noteq> (gs, Inr ())" for gs unfolding run_pipeline_Inr by auto
  then show ?case by (simp add: pipe_inv_def pipeline_not_ok)
next
  case (collected fs)
  with sep show ?case
    by (simp add: pipe_inv_def separate_jobs_def collect_stage_def collecting.in_progress_done)
next
  case (analyze fs fs')
  then show ?case using sep by (auto simp: pipe_inv_def separate_jobs_def extract_stage_def extracting.in_progress_start)
next
  case (analyze_fails fs fs' e)
  then have "run_pipeline env objs us fs0 \<noteq> (gs, Inr ())" for gs unfolding run_pipeline_Inr by (auto simp: pipe_inv_def)
  then show ?case by (simp add: pipe_inv_def pipeline_not_ok)
next
  case (extract_one src srcs fs fs')
  with sep show ?case
    unfolding pipe_inv_def separate_jobs_def extract_stage_def by (auto intro: extracting.in_progress_step)
next
  case (extract_fails src srcs fs fs' e)
  then obtain fs1 fs2 where prev: "run_seq (collect_stage env) us fs0 = (fs1, Inr ())" "analyze_stage env fs1 = (fs2, Inr ())"
    and ip: "in_progress (extract_stage env) objs fs2 srcs fs" by (auto simp: pipe_inv_def)
  with extract_fails sep have "snd (run_seq (extract_stage env) objs fs2) \<noteq> Inr ()"
    unfolding extract_stage_def separate_jobs_def by (intro extracting.in_progress_fails) auto
  with prev have "run_pipeline env objs us fs0 \<noteq> (gs, Inr ())" for gs unfolding run_pipeline_Inr by auto
  then show ?case by (simp add: pipe_inv_def pipeline_not_ok)
next
  case (extracted fs)
  then obtain fs1 fs2 where prev: "run_seq (collect_stage env) us fs0 = (fs1, Inr ())" "analyze_stage env fs1 = (fs2, Inr ())"
    and ip: "in_progress (extract_stage env) objs fs2 [] fs" by (auto simp: pipe_inv_def)
  from ip sep have "run_seq (extract_stage env) objs fs2 = (fs, Inr ())"
    unfolding extract_stage_def separate_jobs_def by (intro extracting.in_progress_done) auto
  with prev show ?case by (auto simp: pipe_inv_def run_pipeline_Inr)
qed

lemma pipe_reach_inv:
  assumes "separate_jobs env objs us" "(pipe_step env objs)\<^sup>*\<^sup>* (Collecting us, fs0) s"
  shows "pipe_inv env objs us fs0 s"
  using assms(2)
proof (induction rule: rtranclp_induct)
  case base
  from assms(1) show ?case
    by (simp add: pipe_inv_def separate_jobs_def collect_stage_def collecting.in_progress_start)
next
  case (step s t)
  from assms(1) step.hyps(2) step.IH show ?case by (rule pipe_step_inv)
qed

subsection \<open>Progress\<close>

text \<open>The steps still to go\<close>

definition steps_left :: "string list \<Rightarrow> stage \<times> files \<Rightarrow> nat" where
  "steps_left objs s =
     (case fst s of
        Collecting us \<Rightarrow> length us + length objs + 3
      | Analysing \<Rightarrow> length objs + 2
      | Extracting srcs \<Rightarrow> length srcs + 1
      | Finished \<Rightarrow> 0
      | Stopped e \<Rightarrow> 0)"

lemma pipe_step_left: "pipe_step env objs s t \<Longrightarrow> steps_left objs t < steps_left objs s"
proof (induction rule: pipe_step.induct)
  case (collect u us fs fs')
  then have "length us \<noteq> 0" by auto
  with collect show ?case by (simp add: steps_left_def length_remove1)
next
  case (extract_one src srcs fs fs')
  then have "length srcs \<noteq> 0" by auto
  with extract_one show ?case by (simp add: steps_left_def length_remove1)
qed (simp_all add: steps_left_def)

lemma pipe_progress: "steps_left objs s \<noteq> 0 \<Longrightarrow> \<exists>t. pipe_step env objs s t"
proof -
  obtain st fs where s: "s = (st, fs)" by fastforce
  have outcome: "\<exists>fs' r. m = (fs', r) \<and> (r = Inr () \<or> (\<exists>e. r = Inl e))" for m :: "files \<times> unit res"
    by (cases m; cases "snd m") auto
  assume "steps_left objs s \<noteq> 0"
  then show ?thesis
  proof (cases st)
    case (Collecting us)
    show ?thesis
    proof (cases us)
      case Nil
      then show ?thesis unfolding s Collecting by (blast intro: pipe_step.collected)
    next
      case (Cons u us')
      then have "u \<in> set us" by simp
      with outcome [of "collect_stage env u fs"] show ?thesis
        unfolding s Collecting by (blast intro: pipe_step.collect pipe_step.collect_fails)
    qed
  next
    case Analysing
    with outcome [of "analyze_stage env fs"] show ?thesis
      unfolding s by (blast intro: pipe_step.analyze pipe_step.analyze_fails)
  next
    case (Extracting srcs)
    show ?thesis
    proof (cases srcs)
      case Nil
      then show ?thesis unfolding s Extracting by (blast intro: pipe_step.extracted)
    next
      case (Cons src srcs')
      then have "src \<in> set srcs" by simp
      with outcome [of "extract_stage env src fs"] show ?thesis
        unfolding s Extracting by (blast intro: pipe_step.extract_one pipe_step.extract_fails)
    qed
  qed (simp_all add: s steps_left_def)
qed

text \<open>From every state some final state is reached.\<close>

lemma pipe_ends: "\<exists>t. (pipe_step env objs)\<^sup>*\<^sup>* s t \<and> steps_left objs t = 0"
proof (induction "steps_left objs s" arbitrary: s rule: less_induct)
  case less
  show ?case
  proof (cases "steps_left objs s = 0")
    case False
    then obtain r where r: "pipe_step env objs s r" using pipe_progress by blast
    from less [OF pipe_step_left [OF r]] r show ?thesis by (meson converse_rtranclp_into_rtranclp)
  qed blast
qed

subsection \<open>The files of a finished run\<close>

definition meta_name :: "gcc_unit \<Rightarrow> string" where
  "meta_name u = u_main_input u @ ''.boundary''"

text \<open>\<open>os.walk\<close> lists the metadata file of the unit whenever it is there.\<close>

definition walk_lists :: "env \<Rightarrow> gcc_unit \<Rightarrow> bool" where
  "walk_lists env u \<longleftrightarrow> (\<forall>fs. fs (abspath (e_cwd env) (meta_name u)) \<noteq> None \<longrightarrow>
     (\<exists>(r, files) \<in> set (e_walk env fs). \<exists>f \<in> set files. ends_with f ''.boundary'' \<and> meta_path (r, f) = Inr (meta_name u)))"

definition ex_config_path :: "env \<Rightarrow> string" where
  "ex_config_path env = abspath (e_cwd env) (e_tmp env @ ''boundary_extract.yaml'')"

lemma collected_files:
  assumes sep: "separate_jobs env objs us" and passes: "filter (\<lambda>p. p = FLD) (e_passes env) = [FLD]"
    and run: "run_seq (collect_stage env) us fs0 = (fs1, Inr ())" and u: "u \<in> set us"
  shows "\<exists>cfg m. fs0 (abspath (e_cwd env) (e_tmp env @ ''boundary.yaml'')) = Some (ConfigFile cfg) \<and>
    fs1 (abspath (e_cwd env) (e_tmp env @ ''boundary.yaml'')) = Some (ConfigFile cfg) \<and>
    collect_info (e_cwd env) cfg FLD u = Inr (Some m) \<and>
    fs1 (abspath (e_cwd env) (meta_name u)) = Some (MetaFile m)"
proof -
  let ?C = "collect_main (e_cwd env) (e_tmp env) (e_passes env)"
  let ?yaml = "abspath (e_cwd env) (e_tmp env @ ''boundary.yaml'')"
  from sep have ind: "independent (collect_reads (e_cwd env) (e_tmp env)) (collect_writes (e_cwd env)) (set us)" "distinct us"
    and reads: "\<forall>u \<in> set us. collect_writes (e_cwd env) u \<inter> collect_reads (e_cwd env) (e_tmp env) u = {}"
    by (auto simp: separate_jobs_def)
  from run have seq: "run_seq ?C us fs0 = (fs1, Inr ())" by (simp add: collect_stage_def)
  with collecting.run_seq_ok [OF ind] u have ok: "snd (?C u fs0) = Inr ()" and fs1: "fs1 = run_all ?C us fs0" by auto
  then have "?C u fs0 = (fst (?C u fs0), Inr ())" by (metis prod.collapse)
  from collect_main_meta [OF this passes] obtain cfg m where
    m: "fs0 ?yaml = Some (ConfigFile cfg)" "collect_info (e_cwd env) cfg FLD u = Inr (Some m)"
      "fst (?C u fs0) (abspath (e_cwd env) (meta_name u)) = Some (MetaFile m)" by (auto simp: meta_name_def)
  have "fs1 (abspath (e_cwd env) (meta_name u)) = fst (?C u fs0) (abspath (e_cwd env) (meta_name u))"
    unfolding fs1 by (rule collecting.run_all_at [OF ind u]) (simp add: collect_writes_def meta_name_def)
  moreover have "fs1 ?yaml = fs0 ?yaml"
    unfolding fs1 by (rule collecting.run_all_frame) (use reads in \<open>auto simp: collect_reads_def\<close>)
  ultimately show ?thesis using m by auto
qed

lemma analyzed_files:
  assumes res: "separate_results (e_cwd env) (e_tmp env) (e_mod env)" and run: "analyze_stage env fs1 = (fs2, Inr ())"
  shows "\<exists>cfg raw a. remove_stale (e_cwd env) fs1 (abspath (e_cwd env) (e_tmp env @ ''boundary.yaml'')) = Some (ConfigFile cfg) \<and>
    read_metas (\<lambda>p. res_bind (read_file (e_cwd env) (remove_stale (e_cwd env) fs1) p) meta_of)
      (e_walk env (remove_stale (e_cwd env) fs1)) = Inr raw \<and>
    analyze (e_order env) (e_depth env) cfg raw (e_elf env) = Inr a \<and>
    fs2 (ex_config_path env) = Some (ExtractConfig (dumped_config cfg a)) \<and>
    fs2 (abspath (e_cwd env) (e_tmp env @ ''header_symbol.json'')) = Some (HeaderSymbols (a_hdr_fns a))"
proof -
  from analyze_main_ok [OF run [unfolded analyze_stage_def]] obtain cfg a strs where
    a: "run_analysis (e_cwd env) (e_tmp env) (e_walk env) (e_order env) (e_depth env) (e_elf env)
          (remove_stale (e_cwd env) fs1) = Inr (cfg, a)"
    and fs2: "fs2 = write_file (e_cwd env) (e_mod env @ ''export_jump.h'') (Text (concat strs))
          (write_results (e_cwd env) (e_tmp env) (e_mod env) (e_order env) cfg a (remove_stale (e_cwd env) fs1))" by blast
  from run_analysis_meta [OF a] obtain raw where raw:
    "remove_stale (e_cwd env) fs1 (abspath (e_cwd env) (e_tmp env @ ''boundary.yaml'')) = Some (ConfigFile cfg)"
    "read_metas (\<lambda>p. res_bind (read_file (e_cwd env) (remove_stale (e_cwd env) fs1) p) meta_of)
      (e_walk env (remove_stale (e_cwd env) fs1)) = Inr raw"
    "analyze (e_order env) (e_depth env) cfg raw (e_elf env) = Inr a" by blast
  from res have "abspath (e_cwd env) (e_tmp env @ ''boundary_extract.yaml'') \<noteq> abspath (e_cwd env) (e_mod env @ ''export_jump.h'')"
    "abspath (e_cwd env) (e_tmp env @ ''header_symbol.json'') \<noteq> abspath (e_cwd env) (e_mod env @ ''export_jump.h'')"
    by (auto simp: separate_results_def analysis_writes_def)
  with write_results_files [OF res] raw show ?thesis by (auto simp: fs2 write_file_at ex_config_path_def)
qed

lemma metas_of_units:
  assumes m: "fs1 (abspath (e_cwd env) (meta_name u)) = Some (MetaFile m)"
    and listed: "walk_lists env u" "\<not> is_stale (e_cwd env) (abspath (e_cwd env) (meta_name u))"
    and raw: "read_metas (\<lambda>p. res_bind (read_file (e_cwd env) (remove_stale (e_cwd env) fs1) p) meta_of)
      (e_walk env (remove_stale (e_cwd env) fs1)) = Inr raw"
  shows "(meta_name u, m) \<in> set raw"
proof -
  let ?fs = "remove_stale (e_cwd env) fs1"
  have present: "?fs (abspath (e_cwd env) (meta_name u)) = Some (MetaFile m)" using m listed(2) by (simp add: remove_stale_def)
  then have "?fs (abspath (e_cwd env) (meta_name u)) \<noteq> None" by simp
  with listed(1) have "\<exists>(r, files) \<in> set (e_walk env ?fs). \<exists>f \<in> set files. ends_with f ''.boundary'' \<and> meta_path (r, f) = Inr (meta_name u)"
    unfolding walk_lists_def by (elim allE impE)
  then obtain r files f where f: "(r, files) \<in> set (e_walk env ?fs)" "f \<in> set files"
    "ends_with f ''.boundary''" "meta_path (r, f) = Inr (meta_name u)" by blast
  from read_metas_each [OF raw f] obtain m' where
    "res_bind (read_file (e_cwd env) ?fs (meta_name u)) meta_of = Inr m'" "(meta_name u, m') \<in> set raw" by blast
  with present show ?thesis by (simp add: read_file_def meta_of_def)
qed

lemma extracted_files:
  assumes sep: "separate_jobs env objs us" and run: "run_seq (extract_stage env) objs fs2 = (fs, Inr ())" and src: "src \<in> set objs"
    and x: "fs2 (ex_config_path env) = Some (ExtractConfig x)"
  shows "fs (ex_config_path env) = Some (ExtractConfig x) \<and>
    (\<exists>fns vars s ls. res_bind (read_file (e_cwd env) fs2 (meta_file (x_cfg x) (e_tmp env) src)) symbols_of = Inr (fns, vars) \<and>
      fs2 (abspath (e_cwd env) src) = Some (Text s) \<and>
      extract_file (e_cwd env) (e_mod env) x src fns vars (readlines s) = Inr ls \<and>
      fs (abspath (e_cwd env) (dst_file (x_cfg x) (e_mod env) src)) = Some (Text (concat ls)))"
proof -
  let ?E = "extract_main (e_cwd env) (e_tmp env) (e_mod env)"
  from sep have ind: "independent (extract_reads (e_cwd env) (e_tmp env)) (extract_writes (e_cwd env) (e_mod env)) (set objs)" "distinct objs"
    and self: "\<forall>src \<in> set objs. extract_writes (e_cwd env) (e_mod env) src \<inter> extract_reads (e_cwd env) (e_tmp env) src = {}"
    by (auto simp: separate_jobs_def)
  from run have seq: "run_seq ?E objs fs2 = (fs, Inr ())" by (simp add: extract_stage_def)
  with extracting.run_seq_ok [OF ind] src have ok: "snd (?E src fs2) = Inr ()" and fs: "fs = run_all ?E objs fs2" by auto
  have unread: "fs p = fs2 p" if "p \<in> extract_reads (e_cwd env) (e_tmp env) src" for p
    unfolding fs
  proof (rule extracting.run_all_frame, rule ballI)
    fix t assume t: "t \<in> set objs"
    show "p \<notin> extract_writes (e_cwd env) (e_mod env) t"
    proof (cases "t = src")
      case True
      with self src that show ?thesis by blast
    next
      case False
      with ind(1) src t that show ?thesis unfolding independent_def by blast
    qed
  qed
  have "?E src fs2 = (fst (?E src fs2), Inr ())" using ok by (metis prod.collapse)
  from extract_main_ok [OF this] self src obtain x' fns vars s ls where
    e: "fs2 (abspath (e_cwd env) (e_tmp env @ ''boundary_extract.yaml'')) = Some (ExtractConfig x')"
      "res_bind (read_file (e_cwd env) fs2 (meta_file (x_cfg x') (e_tmp env) src)) symbols_of = Inr (fns, vars)"
      "fs2 (abspath (e_cwd env) src) = Some (Text s)"
      "extract_file (e_cwd env) (e_mod env) x' src fns vars (readlines s) = Inr ls"
      "fst (?E src fs2) (abspath (e_cwd env) (dst_file (x_cfg x') (e_mod env) src)) = Some (Text (concat ls))"
    by blast
  from e(1) x have "x' = x" by (simp add: ex_config_path_def)
  have "fs (abspath (e_cwd env) (dst_file (x_cfg x) (e_mod env) src)) = fst (?E src fs2) (abspath (e_cwd env) (dst_file (x_cfg x) (e_mod env) src))"
    unfolding fs by (rule extracting.run_all_at [OF ind src]) (simp add: extract_writes_def dst_file_def)
  moreover have "fs (ex_config_path env) = fs2 (ex_config_path env)"
    by (rule unread) (simp add: extract_reads_def ex_config_path_def)
  ultimately show ?thesis using e x \<open>x' = x\<close> by (intro conjI exI) auto
qed

subsection \<open>Runs of the steps\<close>

lemma final_stages: "steps_left objs (st, fs) = 0 \<longleftrightarrow> st = Finished \<or> (\<exists>e. st = Stopped e)"
  by (cases st) (auto simp: steps_left_def)

lemma pipe_final_ok:
  assumes "separate_jobs env objs us" "(pipe_step env objs)\<^sup>*\<^sup>* (Collecting us, fs0) s" "steps_left objs s = 0"
    and "run_pipeline env objs us fs0 = (fs, Inr ())"
  shows "s = (Finished, fs)"
proof -
  obtain st gs where s: "s = (st, gs)" by fastforce
  from pipe_reach_inv [OF assms(1,2)] assms(3,4) show ?thesis
    unfolding s final_stages by (auto simp: pipe_inv_def)
qed

lemma pipe_live:
  assumes "separate_jobs env objs us" "(pipe_step env objs)\<^sup>*\<^sup>* (Collecting us, fs0) s"
    and "run_pipeline env objs us fs0 = (fs, Inr ())"
  shows "(pipe_step env objs)\<^sup>*\<^sup>* s (Finished, fs)"
proof -
  from pipe_ends obtain t where t: "(pipe_step env objs)\<^sup>*\<^sup>* s t" "steps_left objs t = 0" by blast
  from assms(1) rtranclp_trans [OF assms(2) t(1)] t(2) assms(3) have "t = (Finished, fs)" by (rule pipe_final_ok)
  with t(1) show ?thesis by simp
qed

lemma pipe_finished_iff:
  assumes "separate_jobs env objs us"
  shows "(pipe_step env objs)\<^sup>*\<^sup>* (Collecting us, fs0) (Finished, fs) \<longleftrightarrow> run_pipeline env objs us fs0 = (fs, Inr ())"
  using pipe_reach_inv [OF assms, of fs0 "(Finished, fs)"] pipe_live [OF assms rtranclp.rtrancl_refl, of fs0 fs]
  by (auto simp: pipe_inv_def)

subsection \<open>From the sources to the module\<close>

lemma pipeline_stages:
  assumes "separate_results (e_cwd env) (e_tmp env) (e_mod env)" "run_pipeline env objs us fs0 = (fs, Inr ())"
  obtains fs1 fs2 cfg raw a where
    "run_seq (collect_stage env) us fs0 = (fs1, Inr ())" "analyze_stage env fs1 = (fs2, Inr ())"
    "run_seq (extract_stage env) objs fs2 = (fs, Inr ())"
    "remove_stale (e_cwd env) fs1 (abspath (e_cwd env) (e_tmp env @ ''boundary.yaml'')) = Some (ConfigFile cfg)"
    "read_metas (\<lambda>p. res_bind (read_file (e_cwd env) (remove_stale (e_cwd env) fs1) p) meta_of)
      (e_walk env (remove_stale (e_cwd env) fs1)) = Inr raw"
    "analyze (e_order env) (e_depth env) cfg raw (e_elf env) = Inr a"
    "fs2 (ex_config_path env) = Some (ExtractConfig (dumped_config cfg a))"
proof -
  from assms(2) obtain fs1 fs2 where runs: "run_seq (collect_stage env) us fs0 = (fs1, Inr ())"
    "analyze_stage env fs1 = (fs2, Inr ())" "run_seq (extract_stage env) objs fs2 = (fs, Inr ())"
    unfolding run_pipeline_Inr by blast
  from analyzed_files [OF assms(1) runs(2)] show thesis by (elim exE conjE) (rule that [OF runs])
qed

text \<open>
  The files are where the build puts them: the jobs of a stage do not disturb each other;
  the metadata of the units is listed, not deleted, and not overwritten by the analysis; the
  sources to extract are neither metadata nor results of the analysis; and the pass that
  collects runs once per unit.
\<close>

definition well_placed :: "env \<Rightarrow> string list \<Rightarrow> gcc_unit list \<Rightarrow> bool" where
  "well_placed env objs us \<longleftrightarrow> separate_jobs env objs us \<and> separate_results (e_cwd env) (e_tmp env) (e_mod env) \<and>
     filter (\<lambda>p. p = FLD) (e_passes env) = [FLD] \<and>
     (\<forall>u \<in> set us. walk_lists env u \<and> \<not> is_stale (e_cwd env) (abspath (e_cwd env) (meta_name u)) \<and>
        abspath (e_cwd env) (meta_name u) \<notin> set (analysis_writes (e_cwd env) (e_tmp env) (e_mod env))) \<and>
     (\<forall>src \<in> set objs. \<not> is_stale (e_cwd env) (abspath (e_cwd env) src) \<and>
        abspath (e_cwd env) src \<notin> set (analysis_writes (e_cwd env) (e_tmp env) (e_mod env)) \<union>
          (\<lambda>u. abspath (e_cwd env) (meta_name u)) ` set us)"

lemma analyze_stage_frame:
  assumes "analyze_stage env fs1 = (fs2, r)" "p \<notin> set (analysis_writes (e_cwd env) (e_tmp env) (e_mod env))"
    "\<not> is_stale (e_cwd env) p"
  shows "fs2 p = fs1 p"
  using analyze_main_frame [OF assms(2), of "e_walk env" "e_order env" "e_depth env" "e_elf env" "remove_stale (e_cwd env) fs1"]
    assms(1,3) by (simp add: analyze_stage_def remove_stale_def)

lemma collect_stage_frame:
  assumes "separate_jobs env objs us" "run_seq (collect_stage env) us fs0 = (fs1, Inr ())"
    and "\<forall>u \<in> set us. p \<noteq> abspath (e_cwd env) (meta_name u)"
  shows "fs1 p = fs0 p"
proof -
  let ?C = "collect_main (e_cwd env) (e_tmp env) (e_passes env)"
  from assms(1) have "independent (collect_reads (e_cwd env) (e_tmp env)) (collect_writes (e_cwd env)) (set us)" "distinct us"
    by (auto simp: separate_jobs_def)
  from collecting.run_seq_ok [OF this] assms(2) have "fs1 = run_all ?C us fs0" by (simp add: collect_stage_def)
  then show ?thesis using assms(3) by (simp add: collecting.run_all_frame collect_writes_def meta_name_def)
qed

lemma pipeline_result:
  assumes placed: "well_placed env objs us" and run: "run_pipeline env objs us fs0 = (fs, Inr ())"
  obtains fs2 cfg raw a where
    "run_seq (extract_stage env) objs fs2 = (fs, Inr ())" "fs2 (ex_config_path env) = Some (ExtractConfig (dumped_config cfg a))"
    "fs0 (abspath (e_cwd env) (e_tmp env @ ''boundary.yaml'')) = Some (ConfigFile cfg)"
    "analyze (e_order env) (e_depth env) cfg raw (e_elf env) = Inr a"
    "\<And>u. u \<in> set us \<Longrightarrow> \<exists>m. collect_info (e_cwd env) cfg FLD u = Inr (Some m) \<and> (meta_name u, m) \<in> set raw \<and>
      fs2 (abspath (e_cwd env) (meta_name u)) = Some (MetaFile m)"
    "\<And>src. src \<in> set objs \<Longrightarrow> fs2 (abspath (e_cwd env) src) = fs0 (abspath (e_cwd env) src)"
proof -
  from placed have sep: "separate_jobs env objs us" "separate_results (e_cwd env) (e_tmp env) (e_mod env)"
    and passes: "filter (\<lambda>p. p = FLD) (e_passes env) = [FLD]"
    and units: "\<And>u. u \<in> set us \<Longrightarrow> walk_lists env u" "\<And>u. u \<in> set us \<Longrightarrow> \<not> is_stale (e_cwd env) (abspath (e_cwd env) (meta_name u))"
      "\<And>u. u \<in> set us \<Longrightarrow> abspath (e_cwd env) (meta_name u) \<notin> set (analysis_writes (e_cwd env) (e_tmp env) (e_mod env))"
    and srcs: "\<And>src. src \<in> set objs \<Longrightarrow> \<not> is_stale (e_cwd env) (abspath (e_cwd env) src)"
      "\<And>src. src \<in> set objs \<Longrightarrow> abspath (e_cwd env) src \<notin> set (analysis_writes (e_cwd env) (e_tmp env) (e_mod env))"
      "\<And>src u. src \<in> set objs \<Longrightarrow> u \<in> set us \<Longrightarrow> abspath (e_cwd env) src \<noteq> abspath (e_cwd env) (meta_name u)"
    unfolding well_placed_def by blast+
  from sep(2) run show thesis
  proof (rule pipeline_stages)
    fix fs1 fs2 cfg raw a
    assume c: "run_seq (collect_stage env) us fs0 = (fs1, Inr ())" and an: "analyze_stage env fs1 = (fs2, Inr ())"
      and x: "run_seq (extract_stage env) objs fs2 = (fs, Inr ())"
      and conf: "remove_stale (e_cwd env) fs1 (abspath (e_cwd env) (e_tmp env @ ''boundary.yaml'')) = Some (ConfigFile cfg)"
      and raw: "read_metas (\<lambda>p. res_bind (read_file (e_cwd env) (remove_stale (e_cwd env) fs1) p) meta_of)
        (e_walk env (remove_stale (e_cwd env) fs1)) = Inr raw"
      and a: "analyze (e_order env) (e_depth env) cfg raw (e_elf env) = Inr a"
      and dump: "fs2 (ex_config_path env) = Some (ExtractConfig (dumped_config cfg a))"
    from sep(1) have "\<forall>u \<in> set us. abspath (e_cwd env) (e_tmp env @ ''boundary.yaml'') \<noteq> abspath (e_cwd env) (meta_name u)"
      by (auto simp: separate_jobs_def collect_reads_def collect_writes_def meta_name_def)
    from collect_stage_frame [OF sep(1) c this] conf
    have conf0: "fs0 (abspath (e_cwd env) (e_tmp env @ ''boundary.yaml'')) = Some (ConfigFile cfg)"
      by (simp add: remove_stale_def split: if_splits)
    show thesis
    proof (rule that [OF x dump conf0 a])
      fix u assume u: "u \<in> set us"
      from collected_files [OF sep(1) passes c u] obtain cfg' m where m:
        "fs1 (abspath (e_cwd env) (e_tmp env @ ''boundary.yaml'')) = Some (ConfigFile cfg')"
        "collect_info (e_cwd env) cfg' FLD u = Inr (Some m)" "fs1 (abspath (e_cwd env) (meta_name u)) = Some (MetaFile m)" by blast
      from conf m(1) have "cfg' = cfg" by (simp add: remove_stale_def split: if_splits)
      moreover have "(meta_name u, m) \<in> set raw" by (rule metas_of_units [OF m(3) units(1,2) [OF u] raw])
      moreover have "fs2 (abspath (e_cwd env) (meta_name u)) = Some (MetaFile m)"
        using analyze_stage_frame [OF an units(3,2) [OF u]] m(3) by simp
      ultimately show "\<exists>m. collect_info (e_cwd env) cfg FLD u = Inr (Some m) \<and> (meta_name u, m) \<in> set raw \<and>
          fs2 (abspath (e_cwd env) (meta_name u)) = Some (MetaFile m)" using m(2) by blast
    next
      fix src assume src: "src \<in> set objs"
      have "fs2 (abspath (e_cwd env) src) = fs1 (abspath (e_cwd env) src)" by (rule analyze_stage_frame [OF an srcs(2,1) [OF src]])
      also have "\<dots> = fs0 (abspath (e_cwd env) src)" by (rule collect_stage_frame [OF sep(1) c]) (use srcs(3) [OF src] in blast)
      finally show "fs2 (abspath (e_cwd env) src) = fs0 (abspath (e_cwd env) src)" .
    qed
  qed
qed

lemma dumped_simps [simp]:
  "ex_mod_hdrs (x_cfg (dumped_config cfg a)) = ex_mod_hdrs cfg" "dst_file (x_cfg (dumped_config cfg a)) = dst_file cfg"
  by (simp_all add: dumped_config_def ex_mod_hdrs_def mod_srcs_def dst_file_def sdcr_srcs_def sidecar_def fun_eq_iff)

text \<open>A source file of the module: its unit is compiled, its text is in the tree, and it is extracted from them.\<close>

lemma pipeline_module_file:
  assumes placed: "well_placed env objs us" and run: "run_pipeline env objs us fs0 = (fs, Inr ())"
  shows "\<exists>cfg raw a. fs0 (abspath (e_cwd env) (e_tmp env @ ''boundary.yaml'')) = Some (ConfigFile cfg) \<and>
    analyze (e_order env) (e_depth env) cfg raw (e_elf env) = Inr a \<and>
    (\<forall>u \<in> set us. \<exists>m. collect_info (e_cwd env) cfg FLD u = Inr (Some m) \<and> (meta_name u, m) \<in> set raw \<and>
      (u_main_input u \<in> set objs - set (ex_mod_hdrs cfg) \<longrightarrow>
        (\<exists>s ls. fs0 (abspath (e_cwd env) (u_main_input u)) = Some (Text s) \<and>
          extract_file (e_cwd env) (e_mod env) (dumped_config cfg a) (u_main_input u) (m_fn m) (m_var m) (readlines s) = Inr ls \<and>
          length ls = length (readlines s) \<and>
          fs (abspath (e_cwd env) (dst_file cfg (e_mod env) (u_main_input u))) = Some (Text (concat ls)))))"
  using placed run
proof (rule pipeline_result)
  fix fs2 cfg raw a
  let ?x = "dumped_config cfg a"
  assume x: "run_seq (extract_stage env) objs fs2 = (fs, Inr ())" "fs2 (ex_config_path env) = Some (ExtractConfig ?x)"
    and conf: "fs0 (abspath (e_cwd env) (e_tmp env @ ''boundary.yaml'')) = Some (ConfigFile cfg)"
    and a: "analyze (e_order env) (e_depth env) cfg raw (e_elf env) = Inr a"
    and metas: "\<And>u. u \<in> set us \<Longrightarrow> \<exists>m. collect_info (e_cwd env) cfg FLD u = Inr (Some m) \<and> (meta_name u, m) \<in> set raw \<and>
      fs2 (abspath (e_cwd env) (meta_name u)) = Some (MetaFile m)"
    and srcs: "\<And>src. src \<in> set objs \<Longrightarrow> fs2 (abspath (e_cwd env) src) = fs0 (abspath (e_cwd env) src)"
  from placed have sep: "separate_jobs env objs us" by (simp add: well_placed_def)
  show ?thesis
  proof (rule exI [of _ cfg], rule exI [of _ raw], rule exI [of _ a], rule conjI [OF conf], rule conjI [OF a], rule ballI)
    fix u assume "u \<in> set us"
    from metas [OF this] obtain m where m: "collect_info (e_cwd env) cfg FLD u = Inr (Some m)" "(meta_name u, m) \<in> set raw"
      "fs2 (abspath (e_cwd env) (meta_name u)) = Some (MetaFile m)" by blast
    let ?src = "u_main_input u"
    have "\<exists>s ls. fs0 (abspath (e_cwd env) ?src) = Some (Text s) \<and>
        extract_file (e_cwd env) (e_mod env) ?x ?src (m_fn m) (m_var m) (readlines s) = Inr ls \<and>
          length ls = length (readlines s) \<and>
        fs (abspath (e_cwd env) (dst_file cfg (e_mod env) ?src)) = Some (Text (concat ls))"
      if obj: "?src \<in> set objs - set (ex_mod_hdrs cfg)"
    proof -
      from obj have src: "?src \<in> set objs" and meta: "meta_file (x_cfg ?x) (e_tmp env) ?src = meta_name u"
        by (simp_all add: meta_file_def meta_name_def)
      have syms: "res_bind (read_file (e_cwd env) fs2 (meta_name u)) symbols_of = Inr (m_fn m, m_var m)"
        using m(3) by (simp add: read_file_def symbols_of_def)
      from extracted_files [OF sep x(1) src x(2)] obtain s ls where
        ls: "fs2 (abspath (e_cwd env) ?src) = Some (Text s)"
        "extract_file (e_cwd env) (e_mod env) ?x ?src (m_fn m) (m_var m) (readlines s) = Inr ls"
        "fs (abspath (e_cwd env) (dst_file cfg (e_mod env) ?src)) = Some (Text (concat ls))"
        unfolding meta syms by auto
      from srcs [OF src] ls(1) have "fs0 (abspath (e_cwd env) ?src) = Some (Text s)" by simp
      with ls(2,3) extract_file_length [OF ls(2)] show ?thesis by blast
    qed
    with m show "\<exists>m. collect_info (e_cwd env) cfg FLD u = Inr (Some m) \<and> (meta_name u, m) \<in> set raw \<and>
      (?src \<in> set objs - set (ex_mod_hdrs cfg) \<longrightarrow>
        (\<exists>s ls. fs0 (abspath (e_cwd env) ?src) = Some (Text s) \<and>
          extract_file (e_cwd env) (e_mod env) ?x ?src (m_fn m) (m_var m) (readlines s) = Inr ls \<and>
          length ls = length (readlines s) \<and>
          fs (abspath (e_cwd env) (dst_file cfg (e_mod env) ?src)) = Some (Text (concat ls))))" by blast
  qed
qed

lemma extract_stage_config:
  assumes sep: "separate_jobs env objs us" and run: "run_seq (extract_stage env) objs fs2 = (fs, Inr ())"
    and x: "fs2 (ex_config_path env) = Some x"
  shows "fs (ex_config_path env) = Some x"
proof -
  let ?E = "extract_main (e_cwd env) (e_tmp env) (e_mod env)"
  from sep have ind: "independent (extract_reads (e_cwd env) (e_tmp env)) (extract_writes (e_cwd env) (e_mod env)) (set objs)" "distinct objs"
    and self: "\<forall>src \<in> set objs. extract_writes (e_cwd env) (e_mod env) src \<inter> extract_reads (e_cwd env) (e_tmp env) src = {}"
    by (auto simp: separate_jobs_def)
  from extracting.run_seq_ok [OF ind] run have "fs = run_all ?E objs fs2" by (simp add: extract_stage_def)
  moreover have "run_all ?E objs fs2 (ex_config_path env) = fs2 (ex_config_path env)"
    by (rule extracting.run_all_frame) (use self in \<open>auto simp: extract_reads_def ex_config_path_def\<close>)
  ultimately show ?thesis using x by simp
qed

text \<open>Whose callers are known\<close>

lemma compiled_call_of_insider:
  assumes "collect_info cwd ccfg pass u = Inr (Some m)" "(name, m) \<in> set raw"
    and "analyze order depth cfg raw elf = Inr a"
    and "n \<in> set (u_nodes u)" "d_has_body (n_decl n)" "decl_in_section (n_decl n) ''.init.text'' = Inr False"
    and "GimpleCall (Some fd) rhs w \<in> set (each_stmt n)"
    and "decl_sig cwd fd = Inr callee" "lookup_if_global (a_globals a) callee = Some t" "t \<in> insider (a_class a)"
  shows "\<exists>caller. decl_sig cwd (n_decl n) = Inr caller \<and> caller \<in> insider (a_class a) \<union> border (a_class a)
    \<union> init (a_class a) \<union> fc_sidecar (a_class a) \<union> fake_global (a_class a)"
proof -
  from collect_edge_call [OF collect_info_run(4) [OF assms(1)] assms(4-8)] obtain e where
    e: "e \<in> set (m_edge m)" "decl_sig cwd (n_decl n) = Inr (re_from e)" "re_to e = callee" by blast
  with insider_caller [OF assms(3,2) e(1)] assms(9,10) show ?thesis by blast
qed

end
