(* ===== verification/Layout.thy ===== *)
theory Layout
  imports Pipeline Cli Paths
begin

text \<open>
  The directories that \<open>cli.py\<close> gives the stages: everything lies below the working
  directory, what the stages exchange in \<open>working/\<close>, the module in \<open>kernel/sched/mod/\<close>. For
  sources outside these two directories the jobs of a stage do not disturb each other.
\<close>

subsection \<open>Paths below the working directory\<close>

definition plain_path :: "string \<Rightarrow> bool" where
  "plain_path p \<longleftrightarrow> (\<forall>c \<in> set (split_on (CHR ''/'') p). plain c)"

text \<open>An absolute path as \<open>os.path.abspath\<close> returns it\<close>

definition normal_root :: "string \<Rightarrow> bool" where
  "normal_root wd \<longleftrightarrow> starts_with wd ''/'' \<and> one_root wd \<and> abspath wd wd = wd"

lemma plain_path_dir: "plain_path (a @ CHR ''/'' # b) \<longleftrightarrow> plain_path a \<and> plain_path b"
  by (auto simp: plain_path_def split_on_append)

lemma plain_no_slash: "CHR ''/'' \<notin> set p \<Longrightarrow> plain_path p \<longleftrightarrow> plain p"
  by (simp add: plain_path_def split_on_no)

lemma plain_path_rel: "plain_path p \<Longrightarrow> \<not> starts_with p ''/'' \<and> one_root p"
  by (cases p) (auto simp: plain_path_def plain_def one_root_def split: if_splits)

lemma join_split: "join [c] (split_on c s) = s"
proof (induction s)
  case (Cons a s)
  then show ?case by (cases "split_on c s" rule: remdups_adj.cases) auto
qed simp

lemma split_on_suffix:
  "c \<notin> set t \<Longrightarrow> split_on c (s @ t) = butlast (split_on c s) @ [last (split_on c s) @ t]"
proof (induction s)
  case Nil
  then show ?case by (simp add: split_on_no)
next
  case (Cons a s)
  show ?case
  proof (cases "a = c")
    case True
    with Cons show ?thesis by simp
  next
    case False
    obtain x xs where "split_on c s = x # xs" by (cases "split_on c s") simp_all
    with False Cons show ?thesis by (cases xs) simp_all
  qed
qed

lemma plain_path_boundary: "plain_path p \<Longrightarrow> plain_path (p @ ''.boundary'')"
proof -
  let ?cs = "split_on (CHR ''/'') p"
  assume p: "plain_path p"
  have "plain (last ?cs)" using p by (simp add: plain_path_def)
  then have "plain (last ?cs @ ''.boundary'')" by (simp add: plain_def)
  with p show ?thesis by (auto simp: plain_path_def split_on_suffix dest: in_set_butlastD)
qed

lemma file_at_plain_path:
  assumes "plain_path p"
  shows "file_at wd p = rev (split_on (CHR ''/'') p) @ walk_comps (split_on (CHR ''/'') wd) []"
  using assms plain_path_rel [OF assms] unfolding plain_path_def by (simp add: file_at_def walk_comps_all_plain)

lemma abspath_inj:
  assumes "normal_root wd" "plain_path p" "plain_path q"
  shows "abspath wd p = abspath wd q \<longleftrightarrow> p = q"
proof
  assume "abspath wd p = abspath wd q"
  then have "path_comps wd p = path_comps wd q" by (simp add: path_comps_def)
  then have "file_at wd p = file_at wd q"
    using assms plain_path_rel by (simp add: path_comps_file normal_root_def)
  then have "split_on (CHR ''/'') p = split_on (CHR ''/'') q" using assms by (simp add: file_at_plain_path)
  then show "p = q" by (metis join_split)
qed simp

lemma abspath_below:
  assumes "normal_root wd" "plain_path p"
  shows "abspath wd (path_join wd p) = abspath wd p"
proof -
  from plain_path_rel [OF assms(2)] have p: "\<not> starts_with p ''/''" "one_root p" by auto
  from assms(1) have wd: "starts_with wd ''/''" "one_root wd" by (simp_all add: normal_root_def)
  from one_root_join [OF wd p(1)] have j: "starts_with (path_join wd p) ''/''" "one_root (path_join wd p)" by auto
  then have "file_at wd (path_join wd p) = file_at wd p" using p by (simp add: file_at_def split_path_join)
  with wd p j show ?thesis by (simp add: abspath_file)
qed

lemma path_join_append: "b \<noteq> [] \<Longrightarrow> \<not> starts_with b ''/'' \<Longrightarrow> path_join a b @ c = path_join a (b @ c)"
  by (cases b) (auto simp: path_join_def)

lemma is_stale_below:
  assumes "normal_root wd" "plain_path p"
  shows "is_stale wd (abspath wd p) \<longleftrightarrow> stale_comps (split_on (CHR ''/'') p)"
proof -
  let ?root = "walk_comps (split_on (CHR ''/'') wd) []"
  from assms(1) have wd: "starts_with wd ''/''" "one_root wd" "abspath wd wd = wd" by (simp_all add: normal_root_def)
  have "filter (\<lambda>c. c \<noteq> []) (split_on (CHR ''/'') wd) = path_comps wd wd" by (simp add: path_comps_def wd(3))
  also have "\<dots> = rev ?root" using wd by (simp add: path_comps_file file_at_def)
  finally have root: "filter (\<lambda>c. c \<noteq> []) (split_on (CHR ''/'') wd) = rev ?root" .
  have "filter (\<lambda>c. c \<noteq> []) (split_on (CHR ''/'') (abspath wd p)) = path_comps wd p" by (simp add: path_comps_def)
  also have "\<dots> = rev ?root @ split_on (CHR ''/'') p"
    using wd assms(2) plain_path_rel by (simp add: path_comps_file file_at_plain_path)
  finally show ?thesis using root by (simp add: is_stale_def Let_def)
qed

text \<open>What \<open>abspath\<close> returns is such a root.\<close>

lemma normal_root_abspath:
  assumes "starts_with cwd ''/''" "one_root cwd" "one_root p"
  shows "normal_root (abspath cwd p)"
proof -
  let ?cs = "rev (file_at cwd p)" and ?wd = "abspath cwd p"
  have plain: "\<forall>c \<in> set ?cs. plain c" using file_at_plain by simp
  have wd: "?wd = CHR ''/'' # join ''/'' ?cs" using assms by (rule abspath_file)
  then have start: "starts_with ?wd ''/''" by simp
  have one: "one_root ?wd"
  proof (cases ?cs rule: remdups_adj.cases)
    case (2 x)
    with plain show ?thesis by (cases x) (auto simp: wd one_root_def plain_def)
  next
    case (3 x y zs)
    with plain show ?thesis by (cases x) (auto simp: wd one_root_def plain_def)
  qed (simp add: wd one_root_def)
  have "walk_comps (split_on (CHR ''/'') ?wd) [] = rev ?cs"
  proof (cases "?cs = []")
    case False
    then have "split_on (CHR ''/'') (join ''/'' ?cs) = ?cs"
      using plain by (intro split_on_join) (auto simp: plain_def)
    with plain show ?thesis by (simp add: wd comp_step_def walk_comps_all_plain)
  qed (simp add: wd comp_step_def)
  then have "file_at ?wd ?wd = file_at cwd p" using start by (simp add: file_at_def)
  with abspath_file [OF start one one] have "abspath ?wd ?wd = ?wd" by (simp add: wd)
  with start one show ?thesis by (simp add: normal_root_def)
qed

subsection \<open>Sources and what the stages make of them\<close>

text \<open>A source below the working directory, in some directory of its own\<close>

definition kernel_source :: "string \<Rightarrow> bool" where
  "kernel_source p \<longleftrightarrow> plain_path p \<and> CHR ''/'' \<in> set p \<and> \<not> starts_with p ''working/'' \<and>
     \<not> starts_with p ''kernel/sched/mod/'' \<and> \<not> ends_with p ''.boundary''"

lemma basename_last: "CHR ''/'' \<notin> set b \<Longrightarrow> basename (a @ CHR ''/'' # b) = b"
proof -
  assume b: "CHR ''/'' \<notin> set b"
  have "takeWhile (\<lambda>c. c \<noteq> CHR ''/'') (rev b @ CHR ''/'' # rev a) = rev b"
    using b by (subst takeWhile_append2) auto
  then show ?thesis by (simp add: basename_def)
qed

lemma kernel_source_split:
  assumes "kernel_source p"
  obtains d where "p = d @ CHR ''/'' # basename p" "plain_path (basename p)" "CHR ''/'' \<notin> set (basename p)"
proof -
  from assms obtain d b where db: "p = d @ CHR ''/'' # b" "CHR ''/'' \<notin> set b"
    unfolding kernel_source_def by (metis split_list_last)
  with assms show thesis by (intro that [of d]) (simp_all add: kernel_source_def basename_last plain_path_dir)
qed

lemma plain_mod: "plain_path ''kernel/sched/mod''" "plain_path ''working''"
  by (simp_all add: plain_path_def plain_def)

lemma plain_path_below:
  "plain_path p \<Longrightarrow> plain_path (''working/'' @ p)" "plain_path p \<Longrightarrow> plain_path (''kernel/sched/mod/'' @ p)"
  using plain_path_dir [of "''working''" p] plain_path_dir [of "''kernel/sched/mod''" p] plain_mod by simp_all

lemma kernel_source_paths:
  assumes "kernel_source p"
  shows "plain_path p" "plain_path (p @ ''.boundary'')" "plain_path (''kernel/sched/mod/'' @ p)"
    "plain_path (''kernel/sched/mod/'' @ basename p)"
proof -
  show p: "plain_path p" using assms by (simp add: kernel_source_def)
  have "plain_path (basename p)" by (rule kernel_source_split [OF assms])
  then show "plain_path (''kernel/sched/mod/'' @ basename p)" by (rule plain_path_below)
  from p show "plain_path (''kernel/sched/mod/'' @ p)" by (rule plain_path_below)
  from p show "plain_path (p @ ''.boundary'')" by (rule plain_path_boundary)
qed

text \<open>No path below the directory of the module is a source or its metadata file.\<close>

lemma kernel_source_not_mod:
  assumes "kernel_source p"
  shows "p \<noteq> ''kernel/sched/mod/'' @ q" "p @ ''.boundary'' \<noteq> ''kernel/sched/mod/'' @ q"
proof -
  have away: "\<not> starts_with p ''kernel/sched/mod/''" using assms by (simp add: kernel_source_def)
  then show "p \<noteq> ''kernel/sched/mod/'' @ q" unfolding starts_with_iff by blast
  show "p @ ''.boundary'' \<noteq> ''kernel/sched/mod/'' @ q"
  proof
    assume "p @ ''.boundary'' = ''kernel/sched/mod/'' @ q"
    then obtain us where "p = ''kernel/sched/mod/'' @ us \<or> (''kernel/sched/mod/'' = p @ us \<and> ''.boundary'' = us @ q)"
      unfolding append_eq_append_conv2 by metis
    then show False
    proof
      assume "p = ''kernel/sched/mod/'' @ us"
      with away show False unfolding starts_with_iff by blast
    next
      assume us: "''kernel/sched/mod/'' = p @ us \<and> ''.boundary'' = us @ q"
      have "us = []"
      proof (rule ccontr)
        assume ne: "us \<noteq> []"
        have "CHR ''/'' = last (p @ us)" using us by (metis last.simps list.distinct(1))
        with ne have "CHR ''/'' \<in> set us" by simp
        then have "CHR ''/'' \<in> set ''.boundary''" using us by simp
        then show False by simp
      qed
      with us away show False unfolding starts_with_iff by simp
    qed
  qed
qed

lemma kernel_source_not_working: "kernel_source p \<Longrightarrow> p \<noteq> ''working/'' @ q"
  unfolding kernel_source_def starts_with_iff by blast

text \<open>The files of the stages, named below the working directory\<close>

definition mod_targets :: "string \<Rightarrow> string set" where
  "mod_targets p = {''kernel/sched/mod/'' @ p, ''kernel/sched/mod/'' @ basename p}"

definition extract_inputs :: "string \<Rightarrow> string set" where
  "extract_inputs p = {''working/boundary_extract.yaml'', ''working/header_symbol.json'', p @ ''.boundary'', p}"

definition result_names :: "string list" where
  "result_names =
     [''working/header_symbol.json'', ''working/boundary_doc.yaml'', ''working/boundary_extract.yaml'',
      ''kernel/sched/mod/tainted_functions.h'', ''working/symbol_resolve/undefined_functions.h'',
      ''kernel/sched/mod/export_jump.h'']"

lemma plain_names: "plain_path ''working/boundary.yaml''" "\<forall>p \<in> set result_names. plain_path p"
  by (simp_all add: plain_path_def plain_def result_names_def)

lemma inputs_plain: "kernel_source p \<Longrightarrow> q \<in> extract_inputs p \<Longrightarrow> plain_path q"
  using kernel_source_paths(1,2) [of p] plain_names(2) by (auto simp: extract_inputs_def result_names_def)

lemma targets_plain: "kernel_source p \<Longrightarrow> q \<in> mod_targets p \<Longrightarrow> plain_path q"
  using kernel_source_paths(3,4) [of p] unfolding mod_targets_def by blast

lemma targets_not_inputs: "kernel_source p \<Longrightarrow> mod_targets q \<inter> extract_inputs p = {}"
  using kernel_source_not_mod [of p] unfolding mod_targets_def extract_inputs_def
  by (auto dest: sym)

lemma targets_separate:
  assumes "kernel_source p" "kernel_source q" "basename p \<noteq> basename q"
  shows "mod_targets p \<inter> mod_targets q = {}"
proof -
  have "CHR ''/'' \<in> set p" "CHR ''/'' \<in> set q" using assms(1,2) by (simp_all add: kernel_source_def)
  with basename_no_slash [of p] basename_no_slash [of q] have "p \<noteq> basename q" "q \<noteq> basename p" by metis+
  with assms(3) show ?thesis unfolding mod_targets_def by auto
qed

lemma join_below:
  assumes "normal_root wd"
  shows "plain_path (''working/'' @ p) \<Longrightarrow> abspath wd (path_join wd ''working/'' @ p) = abspath wd (''working/'' @ p)"
    "plain_path (''kernel/sched/mod/'' @ p) \<Longrightarrow>
       abspath wd (path_join wd ''kernel/sched/mod/'' @ p) = abspath wd (''kernel/sched/mod/'' @ p)"
proof -
  have "path_join wd ''working/'' @ p = path_join wd (''working/'' @ p)"
    "path_join wd ''kernel/sched/mod/'' @ p = path_join wd (''kernel/sched/mod/'' @ p)"
    by (simp_all add: path_join_append)
  then show "plain_path (''working/'' @ p) \<Longrightarrow> abspath wd (path_join wd ''working/'' @ p) = abspath wd (''working/'' @ p)"
    "plain_path (''kernel/sched/mod/'' @ p) \<Longrightarrow>
       abspath wd (path_join wd ''kernel/sched/mod/'' @ p) = abspath wd (''kernel/sched/mod/'' @ p)"
    using abspath_below [OF assms] by presburger+
qed

lemma stage_files:
  assumes "normal_root wd" "kernel_source p"
  shows "extract_writes wd (path_join wd ''kernel/sched/mod/'') p = abspath wd ` mod_targets p"
    "extract_reads wd (path_join wd ''working/'') p = abspath wd ` extract_inputs p"
proof -
  show "extract_writes wd (path_join wd ''kernel/sched/mod/'') p = abspath wd ` mod_targets p"
    using join_below(2) [OF assms(1)] kernel_source_paths(3,4) [OF assms(2)]
    by (simp only: extract_writes_def mod_targets_def image_insert image_empty)
  have "plain_path (''working/'' @ ''boundary_extract.yaml'')" "plain_path (''working/'' @ ''header_symbol.json'')"
    using plain_names(2) by (simp_all add: result_names_def)
  note join_below(1) [OF assms(1) this(1)] join_below(1) [OF assms(1) this(2)]
  then show "extract_reads wd (path_join wd ''working/'') p = abspath wd ` extract_inputs p"
    by (simp add: extract_reads_def extract_inputs_def)
qed

lemma result_files:
  assumes "normal_root wd"
  shows "analysis_writes wd (path_join wd ''working/'') (path_join wd ''kernel/sched/mod/'') = map (abspath wd) result_names"
    "collect_reads wd (path_join wd ''working/'') u = {abspath wd ''working/boundary.yaml''}"
proof -
  have w: "\<forall>n \<in> {''header_symbol.json'', ''boundary_doc.yaml'', ''boundary_extract.yaml'', ''symbol_resolve/undefined_functions.h'', ''boundary.yaml''}.
      plain_path (''working/'' @ n)"
    and m: "\<forall>n \<in> {''tainted_functions.h'', ''export_jump.h''}. plain_path (''kernel/sched/mod/'' @ n)"
    by (simp_all add: plain_path_def plain_def)
  note jw = join_below(1) [OF assms bspec [OF w]] and jm = join_below(2) [OF assms bspec [OF m]]
  show "analysis_writes wd (path_join wd ''working/'') (path_join wd ''kernel/sched/mod/'') = map (abspath wd) result_names"
    unfolding analysis_writes_def list.map by (subst jw jm, simp)+ (simp add: result_names_def)
  show "collect_reads wd (path_join wd ''working/'') u = {abspath wd ''working/boundary.yaml''}"
    unfolding collect_reads_def by (subst jw) simp_all
qed
subsection \<open>The jobs are separate\<close>

text \<open>
  What the tree must provide: the units and the sources to extract lie outside the two
  directories, no two sources share a base name, no metadata file is one that make deletes, and
  \<open>os.walk\<close> lists the metadata.
\<close>

definition tree_ok :: "env \<Rightarrow> string list \<Rightarrow> gcc_unit list \<Rightarrow> bool" where
  "tree_ok env objs us \<longleftrightarrow> distinct (map u_main_input us) \<and> distinct (map basename objs) \<and>
     (\<forall>p \<in> u_main_input ` set us \<union> set objs. kernel_source p) \<and>
     (\<forall>u \<in> set us. \<not> stale_comps (split_on (CHR ''/'') (meta_name u)) \<and> walk_lists env u) \<and>
     filter (\<lambda>p. p = FLD) (e_passes env) = [FLD]"

lemma abspath_images:
  assumes "normal_root wd" "\<forall>p \<in> P. plain_path p" "\<forall>q \<in> Q. plain_path q" "P \<inter> Q = {}"
  shows "abspath wd ` P \<inter> abspath wd ` Q = {}"
proof -
  have "inj_on (abspath wd) (P \<union> Q)" using assms by (auto simp: inj_on_def abspath_inj)
  then have "abspath wd ` P \<inter> abspath wd ` Q = abspath wd ` (P \<inter> Q)" by (rule inj_on_image_Int [symmetric]) simp_all
  with assms(4) show ?thesis by simp
qed

lemma meta_not_result: "p @ ''.boundary'' \<notin> set result_names" "p @ ''.boundary'' \<noteq> ''working/boundary.yaml''"
proof -
  have "last (p @ ''.boundary'') = CHR ''y''" by simp
  moreover have "\<forall>q \<in> set result_names. last q \<noteq> CHR ''y''" "last ''working/boundary.yaml'' \<noteq> CHR ''y''"
    by (simp_all add: result_names_def)
  ultimately show "p @ ''.boundary'' \<notin> set result_names" "p @ ''.boundary'' \<noteq> ''working/boundary.yaml''" by metis+
qed

lemma source_not_result: "kernel_source p \<Longrightarrow> p \<notin> set result_names"
proof
  assume p: "kernel_source p" and "p \<in> set result_names"
  then have "starts_with p ''working/'' \<or> starts_with p ''kernel/sched/mod/''" by (auto simp: result_names_def)
  with p show False by (simp add: kernel_source_def)
qed

lemma source_not_stale: "kernel_source p \<Longrightarrow> \<not> stale_comps (split_on (CHR ''/'') p)"
proof
  assume p: "kernel_source p" and "stale_comps (split_on (CHR ''/'') p)"
  then obtain d ds where ds: "split_on (CHR ''/'') p = d # ds" "ds \<noteq> []" "ends_with (last ds) ''.c.boundary''"
    by (cases "split_on (CHR ''/'') p") auto
  from p obtain a where a: "p = a @ CHR ''/'' # basename p" "CHR ''/'' \<notin> set (basename p)" by (rule kernel_source_split)
  then have "split_on (CHR ''/'') p = split_on (CHR ''/'') a @ [basename p]" by (metis split_on_append split_on_no)
  with ds have "last ds = basename p" by (metis last_ConsR last_snoc)
  with ds(3) obtain t where "basename p = (t @ ''.c'') @ ''.boundary''" unfolding ends_with_iff by auto
  with a(1) have "p = (a @ CHR ''/'' # t @ ''.c'') @ ''.boundary''" by simp
  then have "ends_with p ''.boundary''" unfolding ends_with_iff by blast
  with p show False by (simp add: kernel_source_def)
qed

lemma layout_well_placed:
  assumes env: "e_tmp env = path_join (e_cwd env) ''working/''" "e_mod env = path_join (e_cwd env) ''kernel/sched/mod/''"
    and root: "normal_root (e_cwd env)" and tree: "tree_ok env objs us"
  shows "well_placed env objs us"
proof -
  let ?wd = "e_cwd env"
  from tree have us: "\<And>u. u \<in> set us \<Longrightarrow> kernel_source (u_main_input u)" and objs: "\<And>p. p \<in> set objs \<Longrightarrow> kernel_source p"
    and dist: "distinct (map u_main_input us)" "distinct (map basename objs)"
    and units: "\<And>u. u \<in> set us \<Longrightarrow> \<not> stale_comps (split_on (CHR ''/'') (meta_name u))" "\<And>u. u \<in> set us \<Longrightarrow> walk_lists env u"
    and passes: "filter (\<lambda>p. p = FLD) (e_passes env) = [FLD]"
    unfolding tree_ok_def by blast+
  have meta: "plain_path (meta_name u)" if "u \<in> set us" for u
    using kernel_source_paths(2) [OF us [OF that]] by (simp add: meta_name_def)
  note inj = abspath_inj [OF root]
  note files = stage_files [OF root, folded env] result_files [OF root, folded env]
  have writes: "collect_writes ?wd u = {abspath ?wd (meta_name u)}" for u by (simp add: collect_writes_def meta_name_def)
  have meta_yaml: "abspath ?wd (meta_name u) \<noteq> abspath ?wd ''working/boundary.yaml''" if "u \<in> set us" for u
    using inj [OF meta [OF that] plain_names(1)] meta_not_result(2) by (simp add: meta_name_def)
  have "distinct us" using dist(1) by (simp add: distinct_map)
  moreover have "distinct objs" using dist(2) by (simp add: distinct_map)
  moreover have "independent (collect_reads ?wd (e_tmp env)) (collect_writes ?wd) (set us)"
    unfolding independent_def files(4) writes
  proof (intro ballI impI)
    fix s t assume st: "s \<in> set us" "t \<in> set us" "s \<noteq> t"
    with dist(1) have "u_main_input s \<noteq> u_main_input t" by (auto simp: distinct_map inj_on_def)
    then have "meta_name s \<noteq> meta_name t" by (simp add: meta_name_def)
    with inj [OF meta [OF st(1)] meta [OF st(2)]] meta_yaml [OF st(1)]
    show "{abspath ?wd (meta_name s)} \<inter> ({abspath ?wd ''working/boundary.yaml''} \<union> {abspath ?wd (meta_name t)}) = {}" by simp
  qed
  moreover have apart: "extract_writes ?wd (e_mod env) s \<inter> extract_reads ?wd (e_tmp env) t = {}"
    if "s \<in> set objs" "t \<in> set objs" for s t
    unfolding files(1) [OF objs [OF that(1)]] files(2) [OF objs [OF that(2)]]
    by (rule abspath_images [OF root])
      (use targets_plain [OF objs [OF that(1)]] inputs_plain [OF objs [OF that(2)]] targets_not_inputs [OF objs [OF that(2)]] in blast)+
  have "extract_writes ?wd (e_mod env) s \<inter> extract_writes ?wd (e_mod env) t = {}"
    if "s \<in> set objs" "t \<in> set objs" "s \<noteq> t" for s t
  proof -
    from that dist(2) have "basename s \<noteq> basename t" by (auto simp: distinct_map inj_on_def)
    from targets_separate [OF objs [OF that(1)] objs [OF that(2)] this] show ?thesis
      unfolding files(1) [OF objs [OF that(1)]] files(1) [OF objs [OF that(2)]]
      by (intro abspath_images [OF root]) (use targets_plain objs that in blast)+
  qed
  with apart have "independent (extract_reads ?wd (e_tmp env)) (extract_writes ?wd (e_mod env)) (set objs)"
    unfolding independent_def by blast
  ultimately have sep: "separate_jobs env objs us"
    using apart meta_yaml unfolding separate_jobs_def writes files(4) by simp
  have "distinct result_names" by (simp add: result_names_def)
  moreover have "inj_on (abspath ?wd) (set result_names)" using plain_names(2) by (auto simp: inj_on_def inj)
  ultimately have res: "separate_results ?wd (e_tmp env) (e_mod env)"
    unfolding separate_results_def files(3) by (simp add: distinct_map)
  have not_res: "abspath ?wd p \<notin> set (analysis_writes ?wd (e_tmp env) (e_mod env))" if "plain_path p" "p \<notin> set result_names" for p
    unfolding files(3) using that plain_names(2) inj [OF that(1)] by auto
  have "\<not> is_stale ?wd (abspath ?wd (meta_name u)) \<and>
      abspath ?wd (meta_name u) \<notin> set (analysis_writes ?wd (e_tmp env) (e_mod env))" if "u \<in> set us" for u
    using is_stale_below [OF root meta [OF that]] units(1) [OF that] not_res [OF meta [OF that]] meta_not_result(1)
    by (simp add: meta_name_def)
  moreover have "\<not> is_stale ?wd (abspath ?wd src) \<and>
      abspath ?wd src \<notin> set (analysis_writes ?wd (e_tmp env) (e_mod env)) \<union> (\<lambda>u. abspath ?wd (meta_name u)) ` set us"
    if "src \<in> set objs" for src
  proof -
    note src = kernel_source_paths(1) [OF objs [OF that]]
    have "src \<noteq> meta_name u" for u
      using objs [OF that] unfolding kernel_source_def meta_name_def ends_with_iff by blast
    then have "abspath ?wd src \<noteq> abspath ?wd (meta_name u)" if "u \<in> set us" for u using inj [OF src meta [OF that]] by simp
    then show ?thesis
      using is_stale_below [OF root src] source_not_stale [OF objs [OF that]]
        not_res [OF src source_not_result [OF objs [OF that]]] by blast
  qed
  ultimately show ?thesis using sep res passes units(2) unfolding well_placed_def by blast
qed

end
