(* ===== verification/KernelTree.thy ===== *)
theory KernelTree
  imports Layout Example
begin

text \<open>
  The small kernel of \<open>Example\<close> as a tree of files below \<open>/k\<close>, for the witnesses on whole
  runs: the three units are collected, analysed, and the module file, the sidecar file and
  the header of the module are extracted.
\<close>

definition SCHED_H :: string where "SCHED_H = ''kernel/sched/sched.h''"

definition ex_env :: env where
  "ex_env = \<lparr>e_cwd = ''/k'', e_tmp = ''/k/working/'', e_mod = ''/k/kernel/sched/mod/'',
     e_passes = [''*build_cgraph_edges'', ''*free_lang_data'', ''visibility''],
     e_walk = \<lambda>_. [(''./kernel/sched'', [''core.c'', ''core.c.boundary'', ''sched.h'']),
       (''./kernel'', [''fork.c'', ''fork.c.boundary'', ''cpuacct.c'', ''cpuacct.c.boundary''])],
     e_order = sorted_list_of_set, e_depth = 20, e_elf = ex_elf\<rparr>"

definition ex_acct_lines :: lines where
  "ex_acct_lines = ex_function ''int charge(void)'' ''return sum();'' @ ex_function ''static int sum(void)'' ''return 1;''"

definition ex_files :: files where
  "ex_files = [''/k/working/boundary.yaml'' \<mapsto> ConfigFile ex_cfg, ''/k/kernel/sched/core.c'' \<mapsto> Text (concat ex_lines),
     ''/k/kernel/cpuacct.c'' \<mapsto> Text (concat ex_acct_lines),
     ''/k/kernel/sched/sched.h'' \<mapsto> Text (''extern int nr;'' @ [NL])]"

definition ex_units :: "gcc_unit list" where
  "ex_units = [ex_unit, ex_fork_unit, ex_acct_unit]"

definition ex_objs :: "string list" where
  "ex_objs = [CORE, SCHED_H, ACCT]"

lemma ex_paths [simp]:
  "abspath ''/k'' ''/k/working/boundary.yaml'' = ''/k/working/boundary.yaml''"
  "abspath ''/k'' ''/k/working/boundary_extract.yaml'' = ''/k/working/boundary_extract.yaml''"
  "abspath ''/k'' ''/k/working/header_symbol.json'' = ''/k/working/header_symbol.json''"
  "abspath ''/k'' (CORE @ ''.boundary'') = ''/k/kernel/sched/core.c.boundary''"
  "abspath ''/k'' (FORK @ ''.boundary'') = ''/k/kernel/fork.c.boundary''"
  "abspath ''/k'' (ACCT @ ''.boundary'') = ''/k/kernel/cpuacct.c.boundary''"
  "abspath ''/k'' (SCHED_H @ ''.boundary'') = ''/k/kernel/sched/sched.h.boundary''"
  "abspath ''/k'' CORE = ''/k/kernel/sched/core.c''"
  "abspath ''/k'' ACCT = ''/k/kernel/cpuacct.c''"
  "abspath ''/k'' SCHED_H = ''/k/kernel/sched/sched.h''"
  by code_simp+

lemma ex_inputs [simp]: "u_main_input ex_unit = CORE" "u_main_input ex_fork_unit = FORK" "u_main_input ex_acct_unit = ACCT"
  by (simp_all add: ex_unit_def ex_fork_unit_def ex_acct_unit_def)

lemma ex_env_sel [simp]: "e_cwd ex_env = ''/k''" "e_tmp ex_env = ''/k/working/''" "e_mod ex_env = ''/k/kernel/sched/mod/''"
  by (simp_all add: ex_env_def)

lemma ex_names_distinct [simp]: "CORE \<noteq> FORK" "CORE \<noteq> ACCT" "FORK \<noteq> ACCT" "CORE \<noteq> SCHED_H" "ACCT \<noteq> SCHED_H" "SCHED_H \<noteq> ACCT"
  by (simp_all add: CORE_def FORK_def ACCT_def SCHED_H_def)

lemma ex_results: "analysis_writes ''/k'' ''/k/working/'' ''/k/kernel/sched/mod/'' =
    [''/k/working/header_symbol.json'', ''/k/working/boundary_doc.yaml'', ''/k/working/boundary_extract.yaml'',
     ''/k/kernel/sched/mod/tainted_functions.h'', ''/k/working/symbol_resolve/undefined_functions.h'',
     ''/k/kernel/sched/mod/export_jump.h'']"
  by code_simp

lemma ex_stale: "\<not> is_stale ''/k'' ''/k/kernel/sched/core.c.boundary''" "\<not> is_stale ''/k'' ''/k/kernel/fork.c.boundary''"
  "\<not> is_stale ''/k'' ''/k/kernel/cpuacct.c.boundary''" "\<not> is_stale ''/k'' ''/k/kernel/sched/core.c''"
  "\<not> is_stale ''/k'' ''/k/working/boundary.yaml''" "\<not> is_stale ''/k'' ''/k/kernel/cpuacct.c''" "\<not> is_stale ''/k'' ''/k/working/boundary.yaml''" "\<not> is_stale ''/k'' ''/k/kernel/sched/sched.h''"
  by code_simp+

lemma ex_meta_paths:
  "meta_path (''./kernel/sched'', ''core.c.boundary'') = Inr (CORE @ ''.boundary'')"
  "meta_path (''./kernel'', ''fork.c.boundary'') = Inr (FORK @ ''.boundary'')"
  "meta_path (''./kernel'', ''cpuacct.c.boundary'') = Inr (ACCT @ ''.boundary'')"
  by code_simp+

lemma ex_walk: "u \<in> set ex_units \<Longrightarrow> walk_lists ex_env u"
proof -
  have "ends_with ''core.c.boundary'' ''.boundary''" "ends_with ''fork.c.boundary'' ''.boundary''"
    "ends_with ''cpuacct.c.boundary'' ''.boundary''" by code_simp+
  moreover assume "u \<in> set ex_units"
  ultimately show ?thesis by (auto simp: walk_lists_def ex_meta_paths ex_units_def ex_env_def meta_name_def)
qed

lemma ex_tree_ok: "tree_ok ex_env ex_objs ex_units"
proof -
  have "kernel_source CORE" "kernel_source FORK" "kernel_source ACCT" "kernel_source SCHED_H" by code_simp+
  moreover have "distinct [basename CORE, basename SCHED_H, basename ACCT]" by code_simp
  moreover have "\<not> stale_comps (split_on (CHR ''/'') (CORE @ ''.boundary''))" "\<not> stale_comps (split_on (CHR ''/'') (FORK @ ''.boundary''))"
    "\<not> stale_comps (split_on (CHR ''/'') (ACCT @ ''.boundary''))" by code_simp+
  moreover have "filter (\<lambda>p. p = FLD) (e_passes ex_env) = [FLD]" by (simp add: ex_env_def FLD_def)
  moreover have "distinct (map u_main_input ex_units)" by (simp add: ex_units_def)
  ultimately show ?thesis using ex_walk unfolding tree_ok_def by (simp add: ex_units_def ex_objs_def meta_name_def)
qed

lemma ex_well_placed: "well_placed ex_env ex_objs ex_units"
proof (rule layout_well_placed [OF _ _ _ ex_tree_ok])
  show "normal_root (e_cwd ex_env)" unfolding ex_env_sel by code_simp
qed (simp_all add: path_join_def ends_with_def)

lemma ex_separate: "separate_jobs ex_env ex_objs ex_units"
  using ex_well_placed by (simp add: well_placed_def)

subsection \<open>The run\<close>

text \<open>The files after the collection\<close>

definition ex_files1 :: files where
  "ex_files1 = ex_files(''/k/kernel/sched/core.c.boundary'' \<mapsto> MetaFile ex_core, ''/k/kernel/fork.c.boundary'' \<mapsto> MetaFile ex_fork,
     ''/k/kernel/cpuacct.c.boundary'' \<mapsto> MetaFile ex_acct)"

lemma ex_collect_run: "run_seq (collect_stage ex_env) ex_units ex_files = (ex_files1, Inr ())"
proof -
  have "collect_info ''/k'' ex_cfg FLD ex_unit = Inr (Some ex_core)"
    "collect_info ''/k'' ex_cfg FLD ex_fork_unit = Inr (Some ex_fork)"
    "collect_info ''/k'' ex_cfg FLD ex_acct_unit = Inr (Some ex_acct)" by code_simp+
  moreover have "filter (\<lambda>p. p = FLD) (e_passes ex_env) = [FLD]" by (simp add: ex_env_def FLD_def)
  moreover have "ex_files ''/k/working/boundary.yaml'' = Some (ConfigFile ex_cfg)" by (simp add: ex_files_def)
  ultimately show ?thesis
    by (simp add: ex_units_def collect_stage_def collect_main_run [where cfg = ex_cfg] write_file_def ex_files1_def)
qed

lemma ex_run_analysis:
  assumes "analyze sorted_list_of_set 20 ex_cfg ex_raw ex_elf = Inr a"
  shows "run_analysis ''/k'' ''/k/working/'' (e_walk ex_env) sorted_list_of_set 20 ex_elf (remove_stale ''/k'' ex_files1) = Inr (ex_cfg, a)"
proof -
  let ?fs = "remove_stale ''/k'' ex_files1"
  have "read_file ''/k'' ?fs ''/k/working/boundary.yaml'' = Inr (ConfigFile ex_cfg)"
    by (simp add: read_file_def remove_stale_def ex_files1_def ex_files_def ex_stale)
  moreover have "read_file ''/k'' ?fs (CORE @ ''.boundary'') = Inr (MetaFile ex_core)"
    "read_file ''/k'' ?fs (FORK @ ''.boundary'') = Inr (MetaFile ex_fork)"
    "read_file ''/k'' ?fs (ACCT @ ''.boundary'') = Inr (MetaFile ex_acct)"
    by (simp_all add: read_file_def remove_stale_def ex_files1_def ex_stale)
  moreover have "meta_candidates (e_walk ex_env ?fs) = [(''./kernel/sched'', ''core.c.boundary''),
      (''./kernel'', ''fork.c.boundary''), (''./kernel'', ''cpuacct.c.boundary'')]"
    unfolding ex_env_def env.simps by code_simp
  moreover have "ex_raw = [(CORE @ ''.boundary'', ex_core), (FORK @ ''.boundary'', ex_fork), (ACCT @ ''.boundary'', ex_acct)]"
    by (simp add: ex_raw_def CORE_def FORK_def ACCT_def)
  ultimately show ?thesis using assms
    by (simp add: run_analysis_def config_of_def meta_of_def read_metas_def ex_meta_paths)
qed

lemma ex_header_symbols: "res_map a_hdr_fns ex_analysis = Inr []"
  by code_simp

lemma ex_jump: "\<not> isl (res_bind ex_analysis (export_jump sorted_list_of_set))"
  by code_simp

lemma ex_analyze_run:
  obtains a fs2 where "analyze sorted_list_of_set 20 ex_cfg ex_raw ex_elf = Inr a"
    "analyze_stage ex_env ex_files1 = (fs2, Inr ())"
    "fs2 ''/k/working/boundary_extract.yaml'' = Some (ExtractConfig ex_config)"
    "fs2 ''/k/working/header_symbol.json'' = Some (HeaderSymbols [])"
    "\<forall>p. p \<notin> set (analysis_writes ''/k'' ''/k/working/'' ''/k/kernel/sched/mod/'') \<longrightarrow> \<not> is_stale ''/k'' p \<longrightarrow> fs2 p = ex_files1 p"
proof -
  obtain a where a: "analyze sorted_list_of_set 20 ex_cfg ex_raw ex_elf = Inr a" "a_function a = function_section ex_cfg ex_class"
    by (rule ex_run)
  then have an: "ex_analysis = Inr a" by (simp add: ex_analysis_def)
  from ex_header_symbols have hdr: "a_hdr_fns a = []" by (simp add: an)
  from ex_jump obtain strs where strs: "export_jump sorted_list_of_set a = Inr strs"
    by (cases "export_jump sorted_list_of_set a") (simp_all add: an)
  have dumped: "dumped_config ex_cfg a = ex_config"
    by (simp add: dumped_config_def ex_config_def a(2) sidecar_def ex_cfg_def)
  have "\<exists>fs2. analyze_stage ex_env ex_files1 = (fs2, Inr ())"
    using ex_run_analysis [OF a(1)] strs by (simp add: analyze_stage_def analyze_main_def Let_def) (simp add: ex_env_def)
  then obtain fs2 where fs2: "analyze_stage ex_env ex_files1 = (fs2, Inr ())" by blast
  have "separate_results (e_cwd ex_env) (e_tmp ex_env) (e_mod ex_env)" by (simp add: separate_results_def ex_results)
  note res = this [simplified]
  have sel: "e_order ex_env = sorted_list_of_set" "e_depth ex_env = 20" "e_elf ex_env = ex_elf" by (simp_all add: ex_env_def)
  from analyze_main_ok [OF fs2 [unfolded analyze_stage_def]] ex_run_analysis [OF a(1)] obtain strs where
    eq: "fs2 = write_file ''/k'' (''/k/kernel/sched/mod/'' @ ''export_jump.h'') (Text (concat strs))
      (write_results ''/k'' ''/k/working/'' ''/k/kernel/sched/mod/'' sorted_list_of_set ex_cfg a (remove_stale ''/k'' ex_files1))"
    by (auto simp: sel)
  have jump: "abspath ''/k'' (''/k/kernel/sched/mod/'' @ ''export_jump.h'') = ''/k/kernel/sched/mod/export_jump.h''" by code_simp
  note files = write_results_files(1,2) [OF res, of sorted_list_of_set ex_cfg a "remove_stale ''/k'' ex_files1"]
  show thesis
  proof (rule that [OF a(1) fs2])
    show "fs2 ''/k/working/boundary_extract.yaml'' = Some (ExtractConfig ex_config)"
      using files(1) unfolding eq write_file_at jump by (simp add: dumped)
    show "fs2 ''/k/working/header_symbol.json'' = Some (HeaderSymbols [])"
      using files(2) unfolding eq write_file_at jump by (simp add: hdr)
    show "\<forall>p. p \<notin> set (analysis_writes ''/k'' ''/k/working/'' ''/k/kernel/sched/mod/'') \<longrightarrow> \<not> is_stale ''/k'' p \<longrightarrow>
        fs2 p = ex_files1 p"
      using analyze_stage_frame [OF fs2] by simp
  qed
qed

lemma ex_extracts:
  "\<not> isl (extract_file ''/k'' ''/k/kernel/sched/mod/'' ex_config CORE (m_fn ex_core) (m_var ex_core) (readlines (concat ex_lines)))"
  "\<not> isl (extract_file ''/k'' ''/k/kernel/sched/mod/'' ex_config ACCT (m_fn ex_acct) (m_var ex_acct) (readlines (concat ex_acct_lines)))"
  "\<not> isl (extract_file ''/k'' ''/k/kernel/sched/mod/'' ex_config SCHED_H [] [] (readlines (''extern int nr;'' @ [NL])))"
  by code_simp+

lemma ex_metas:
  "meta_file (x_cfg ex_config) ''/k/working/'' CORE = CORE @ ''.boundary''"
  "meta_file (x_cfg ex_config) ''/k/working/'' ACCT = ACCT @ ''.boundary''"
  "meta_file (x_cfg ex_config) ''/k/working/'' SCHED_H = ''/k/working/header_symbol.json''"
  "dst_file (x_cfg ex_config) ''/k/kernel/sched/mod/'' CORE = ''/k/kernel/sched/mod/core.c''"
  "dst_file (x_cfg ex_config) ''/k/kernel/sched/mod/'' ACCT = ''/k/kernel/sched/mod/kernel/cpuacct.c''"
  "dst_file (x_cfg ex_config) ''/k/kernel/sched/mod/'' SCHED_H = ''/k/kernel/sched/mod/sched.h''"
  by code_simp+

lemma not_isl_Inr: "\<not> isl x \<Longrightarrow> \<exists>v. x = Inr v"
  by (cases x) auto

lemma ex_pipeline_run:
  obtains fs where "run_pipeline ex_env ex_objs ex_units ex_files = (fs, Inr ())"
    "fs (ex_config_path ex_env) = Some (ExtractConfig ex_config)"
proof -
  let ?E = "extract_main ''/k'' ''/k/working/'' ''/k/kernel/sched/mod/''"
  obtain a fs2 where "analyze sorted_list_of_set 20 ex_cfg ex_raw ex_elf = Inr a" and an: "analyze_stage ex_env ex_files1 = (fs2, Inr ())"
    and conf: "fs2 ''/k/working/boundary_extract.yaml'' = Some (ExtractConfig ex_config)"
    and hdr: "fs2 ''/k/working/header_symbol.json'' = Some (HeaderSymbols [])"
    and rest: "\<forall>p. p \<notin> set (analysis_writes ''/k'' ''/k/working/'' ''/k/kernel/sched/mod/'') \<longrightarrow> \<not> is_stale ''/k'' p \<longrightarrow> fs2 p = ex_files1 p"
    by (rule ex_analyze_run)
  have files: "fs2 ''/k/kernel/sched/core.c'' = Some (Text (concat ex_lines))"
    "fs2 ''/k/kernel/cpuacct.c'' = Some (Text (concat ex_acct_lines))"
    "fs2 ''/k/kernel/sched/sched.h'' = Some (Text (''extern int nr;'' @ [NL]))"
    "fs2 ''/k/kernel/sched/core.c.boundary'' = Some (MetaFile ex_core)"
    "fs2 ''/k/kernel/cpuacct.c.boundary'' = Some (MetaFile ex_acct)"
    by (simp_all add: rest ex_results ex_stale) (simp_all add: ex_files1_def ex_files_def)
  from ex_extracts [THEN not_isl_Inr] obtain l1 l2 l3 where
    ls: "extract_file ''/k'' ''/k/kernel/sched/mod/'' ex_config CORE (m_fn ex_core) (m_var ex_core) (readlines (concat ex_lines)) = Inr l1"
      "extract_file ''/k'' ''/k/kernel/sched/mod/'' ex_config ACCT (m_fn ex_acct) (m_var ex_acct) (readlines (concat ex_acct_lines)) = Inr l2"
      "extract_file ''/k'' ''/k/kernel/sched/mod/'' ex_config SCHED_H [] [] (readlines (''extern int nr;'' @ [NL])) = Inr l3"
    by blast
  have conf': "fs2 (abspath ''/k'' (''/k/working/'' @ ''boundary_extract.yaml'')) = Some (ExtractConfig ex_config)" using conf by simp
  have dst: "abspath ''/k'' ''/k/kernel/sched/mod/core.c'' = ''/k/kernel/sched/mod/core.c''"
    "abspath ''/k'' ''/k/kernel/sched/mod/kernel/cpuacct.c'' = ''/k/kernel/sched/mod/kernel/cpuacct.c''"
    "abspath ''/k'' ''/k/kernel/sched/mod/sched.h'' = ''/k/kernel/sched/mod/sched.h''" by code_simp+
  have "snd (?E CORE fs2) = Inr ()"
    by (rule extract_main_run [where fs = fs2, OF conf' _ _ ls(1)]) (simp_all only: ex_metas dst, simp_all add: read_file_def symbols_of_def files)
  moreover have "snd (?E ACCT fs2) = Inr ()"
    by (rule extract_main_run [where fs = fs2, OF conf' _ _ ls(2)]) (simp_all only: ex_metas dst, simp_all add: read_file_def symbols_of_def files)
  moreover have "snd (?E SCHED_H fs2) = Inr ()"
    by (rule extract_main_run [where fs = fs2, OF conf' _ _ ls(3)]) (simp_all only: ex_metas dst, simp_all add: read_file_def symbols_of_def files hdr)
  ultimately have ok: "\<forall>src \<in> set ex_objs. snd (?E src fs2) = Inr ()" by (simp add: ex_objs_def)
  from ex_separate have "independent (extract_reads ''/k'' ''/k/working/'') (extract_writes ''/k'' ''/k/kernel/sched/mod/'') (set ex_objs)"
    "distinct ex_objs" by (simp_all add: separate_jobs_def)
  from extracting.run_seq_ok [OF this] ok have "run_seq (extract_stage ex_env) ex_objs fs2 = (run_all ?E ex_objs fs2, Inr ())"
    by (simp add: extract_stage_def)
  moreover have "fs2 (ex_config_path ex_env) = Some (ExtractConfig ex_config)" using conf by (simp add: ex_config_path_def)
  with extract_stage_config [OF ex_separate calculation this] calculation show thesis
    using that ex_collect_run an unfolding run_pipeline_Inr by blast
qed

lemma ex_env_order: "e_order ex_env = sorted_list_of_set" "e_depth ex_env = 20" "e_elf ex_env = ex_elf"
  by (simp_all add: ex_env_def)

lemma ex_finished:
  obtains fs where "(pipe_step ex_env ex_objs)\<^sup>*\<^sup>* (Collecting ex_units, ex_files) (Finished, fs)"
    "fs (ex_config_path ex_env) = Some (ExtractConfig ex_config)"
proof -
  obtain fs where "run_pipeline ex_env ex_objs ex_units ex_files = (fs, Inr ())"
    "fs (ex_config_path ex_env) = Some (ExtractConfig ex_config)" by (rule ex_pipeline_run)
  with pipe_finished_iff [OF ex_separate] that show thesis by blast
qed

text \<open>Another order: the unit of \<open>kernel/fork.c\<close> first\<close>

lemma ex_fork_first:
  obtains fs where "(pipe_step ex_env ex_objs)\<^sup>*\<^sup>* (Collecting ex_units, ex_files) (Collecting [ex_unit, ex_acct_unit], fs)"
proof -
  have "collect_info ''/k'' ex_cfg FLD ex_fork_unit = Inr (Some ex_fork)" by code_simp
  moreover have "filter (\<lambda>p. p = FLD) (e_passes ex_env) = [FLD]" by (simp add: ex_env_def FLD_def)
  moreover have "ex_files ''/k/working/boundary.yaml'' = Some (ConfigFile ex_cfg)" by (simp add: ex_files_def)
  ultimately obtain fs where "collect_stage ex_env ex_fork_unit ex_files = (fs, Inr ())"
    by (simp add: collect_stage_def collect_main_run [where cfg = ex_cfg])
  then have "pipe_step ex_env ex_objs (Collecting ex_units, ex_files) (Collecting (remove1 ex_fork_unit ex_units), fs)"
    by (intro pipe_step.collect) (simp_all add: ex_units_def)
  moreover have "ex_unit \<noteq> ex_fork_unit" using ex_names_distinct(1) ex_inputs by metis
  then have "remove1 ex_fork_unit ex_units = [ex_unit, ex_acct_unit]" by (simp add: ex_units_def)
  ultimately show thesis using that by (metis r_into_rtranclp)
qed

end
