(* ===== verification/Orders.thy ===== *)
theory Orders
  imports Files "HOL-Library.Multiset"
begin

text \<open>
  The iteration orders of \<open>boundary/analyze.py\<close>. The sets of the configuration are iterated
  where \<open>find_in_vmlinux\<close> looks a name up in the files (\<open>get_in_any\<close>), where \<open>fullname\<close> is
  built, and by \<open>sidecar_inflect\<close>; the sets of functions by the sanity checks and when the
  headers are written. \<open>reordered\<close> relates two orders of the sets of a configuration,
  \<open>unambiguous\<close> says that no lookup has two answers. Then the order does not matter.
\<close>

subsection \<open>Two orders of one configuration\<close>

definition reordered :: "config \<Rightarrow> config \<Rightarrow> bool" where
  "reordered cfg cfg' \<longleftrightarrow>
     mset (mod_files cfg) = mset (mod_files cfg') \<and>
     rel_option (\<lambda>s t. mset s = mset t) (config_sidecar cfg) (config_sidecar cfg') \<and>
     mset (interface_prefix cfg) = mset (interface_prefix cfg') \<and>
     mset (config_interface cfg) = mset (config_interface cfg') \<and>
     mset (extra_public cfg) = mset (extra_public cfg') \<and>
     mset (force_private cfg) = mset (force_private cfg')"

lemma reordered_sets:
  assumes "reordered cfg cfg'"
  shows "set (mod_files cfg) = set (mod_files cfg')" "set (sidecar cfg) = set (sidecar cfg')"
    "set (config_interface cfg) = set (config_interface cfg')"
    "set (sdcr_srcs cfg) = set (sdcr_srcs cfg')" "set (mod_hdrs cfg) = set (mod_hdrs cfg')"
    "set (all_files cfg) = set (all_files cfg')"
proof -
  show "set (mod_files cfg) = set (mod_files cfg')" "set (config_interface cfg) = set (config_interface cfg')"
    using assms unfolding reordered_def by (meson mset_eq_setD)+
  show sd: "set (sidecar cfg) = set (sidecar cfg')"
    using assms by (auto simp: reordered_def sidecar_def rel_option_iff split: option.splits dest: mset_eq_setD)
  then show "set (sdcr_srcs cfg) = set (sdcr_srcs cfg')" by (simp add: sdcr_srcs_def)
  then show "set (mod_hdrs cfg) = set (mod_hdrs cfg')" "set (all_files cfg) = set (all_files cfg')"
    using \<open>set (mod_files cfg) = set (mod_files cfg')\<close> by (auto simp: mod_hdrs_def mod_srcs_def all_files_def)
qed

subsection \<open>Lookups with one answer\<close>

definition one_file :: "sig set \<Rightarrow> string \<Rightarrow> string list \<Rightarrow> bool" where
  "one_file fns f files \<longleftrightarrow> (\<forall>F \<in> set files. \<forall>G \<in> set files. (f, F) \<in> fns \<longrightarrow> (f, G) \<in> fns \<longrightarrow> F = G)"

text \<open>What \<open>find_in_vmlinux\<close> looks up for a line of the symbol table\<close>

definition line_unambiguous :: "config \<Rightarrow> sig set \<Rightarrow> string \<Rightarrow> bool" where
  "line_unambiguous cfg fns line \<longleftrightarrow>
     (let fields = split_ws line; symtype = fields ! 3; scope = fields ! 4; key = fields ! 7
      in length fields \<noteq> 8 \<or>
         (if symtype = ''FUNC'' then one_file fns key (if scope = ''LOCAL'' then mod_hdrs cfg else all_files cfg)
          else symtype \<noteq> ''NOTYPE'' \<or> \<not> starts_with key ''__ksymtab_'' \<or>
               one_file fns (drop (length ''__ksymtab_'') key) (mod_files cfg)))"

definition unambiguous :: "config \<Rightarrow> sig set \<Rightarrow> string list \<Rightarrow> bool" where
  "unambiguous cfg fns elf \<longleftrightarrow>
     inj_on basename (set (all_files cfg)) \<and> list_all (line_unambiguous cfg fns) (drop 3 elf)"

lemma get_in_any_order:
  assumes "one_file fns f files" "set files = set files'"
  shows "get_in_any fns f files' = get_in_any fns f files"
proof (cases "get_in_any fns f files")
  case None
  with assms(2) have "get_in_any fns f files' = None" unfolding get_in_any_None by simp
  with None show ?thesis by simp
next
  case (Some F)
  then have F: "(f, F) \<in> fns" "F \<in> set files'" using get_in_any_Some assms(2) by blast+
  then have "get_in_any fns f files' \<noteq> None" using get_in_any_None by metis
  then obtain G where G: "get_in_any fns f files' = Some G" by blast
  with get_in_any_Some [OF this] F assms have "G = F" unfolding one_file_def by blast
  with G Some show ?thesis by simp
qed

text \<open>The reason for the condition: where a name has two files, the first one in the order of
  the set is found.\<close>

lemma get_in_any_ambiguous:
  assumes "(f, F) \<in> fns" "(f, G) \<in> fns"
  shows "get_in_any fns f [F, G] = Some F" "get_in_any fns f [G, F] = Some G"
  using assms by (simp_all add: get_in_any_def)

lemma fullname_iff:
  assumes "inj_on basename (set (all_files cfg))"
  shows "fullname cfg b = Some f \<longleftrightarrow> f \<in> set (all_files cfg) \<and> basename f = b"
proof
  assume "fullname cfg b = Some f"
  then show "f \<in> set (all_files cfg) \<and> basename f = b" using fullname_in_all_files fullname_basename by blast
next
  assume f: "f \<in> set (all_files cfg) \<and> basename f = b"
  then have "b \<in> fst ` set (rev (map (\<lambda>f. (basename f, f)) (all_files cfg)))" by force
  then obtain g where g: "fullname cfg b = Some g"
    unfolding fullname_def by (metis map_of_eq_None_iff not_None_eq)
  then have "g \<in> set (all_files cfg)" "basename g = b" using fullname_in_all_files fullname_basename by blast+
  then have "g = f" using f inj_onD [OF assms, of g f] by simp
  with g show "fullname cfg b = Some f" by simp
qed

lemma fullname_order:
  assumes "inj_on basename (set (all_files cfg))" "set (all_files cfg) = set (all_files cfg')"
  shows "fullname cfg' = fullname cfg"
proof
  fix b
  have "fullname cfg' b = Some f \<longleftrightarrow> fullname cfg b = Some f" for f
    using assms by (simp add: fullname_iff)
  then show "fullname cfg' b = fullname cfg b" by (cases "fullname cfg b"; cases "fullname cfg' b") auto
qed

lemma vm_line_order:
  assumes "reordered cfg cfg'" "inj_on basename (set (all_files cfg))" "line_unambiguous cfg fns line"
  shows "vm_line cfg' fns line s = vm_line cfg fns line s"
proof -
  note sets = reordered_sets [OF assms(1)]
  define fields where "fields = split_ws line"
  have setf: "vm_set_file cfg' key s = vm_set_file cfg key s" for key
    using fullname_order [OF assms(2) sets(6)] by (simp add: vm_set_file_def)
  have notype: "vm_notype cfg' fns key s = vm_notype cfg fns key s"
    if "starts_with key ''__ksymtab_'' \<Longrightarrow> one_file fns (drop (length ''__ksymtab_'') key) (mod_files cfg)" for key
  proof (cases "starts_with key ''__ksymtab_''")
    case True
    show ?thesis
      unfolding vm_notype_def Let_def get_in_any_order [OF that [OF True] sets(1)] sets(1) by (rule refl)
  qed (simp add: vm_notype_def)
  have func: "vm_func cfg' fns scope key s = vm_func cfg fns scope key s"
    if "one_file fns key (if scope = ''LOCAL'' then mod_hdrs cfg else all_files cfg)" for scope key
  proof (cases "scope = ''LOCAL''")
    case True
    with that have "get_in_any fns key (mod_hdrs cfg') = get_in_any fns key (mod_hdrs cfg)"
      by (intro get_in_any_order sets(5)) simp
    with True sets(6) show ?thesis by (simp only: vm_func_def if_True simp_thms)
  next
    case False
    with that have "get_in_any fns key (all_files cfg') = get_in_any fns key (all_files cfg)"
      by (intro get_in_any_order sets(6)) simp
    with False show ?thesis by (simp only: vm_func_def if_False simp_thms)
  qed
  have "vm_notype cfg' fns (fields ! 7) s = vm_notype cfg fns (fields ! 7) s"
    if "length fields = 8" "fields ! 3 = ''NOTYPE''"
    by (rule notype) (use assms(3) that in \<open>simp add: line_unambiguous_def fields_def Let_def\<close>)
  moreover have "vm_func cfg' fns (fields ! 4) (fields ! 7) s = vm_func cfg fns (fields ! 4) (fields ! 7) s"
    if "length fields = 8" "fields ! 3 = ''FUNC''"
    by (rule func) (use assms(3) that in \<open>simp add: line_unambiguous_def fields_def Let_def\<close>)
  ultimately show ?thesis
    unfolding vm_line_def fields_def [symmetric] Let_def by (simp add: setf)
qed

lemma find_in_vmlinux_order:
  assumes "reordered cfg cfg'" "unambiguous cfg fns elf"
  shows "find_in_vmlinux cfg' fns elf = find_in_vmlinux cfg fns elf"
proof -
  have "res_fold (vm_line cfg' fns) ls s = res_fold (vm_line cfg fns) ls s"
    if "list_all (line_unambiguous cfg fns) ls" for ls s
    using that assms by (induction ls arbitrary: s) (auto simp: vm_line_order unambiguous_def split: sum.splits)
  with assms(2) show ?thesis by (simp add: find_in_vmlinux_def unambiguous_def)
qed

subsection \<open>The analysis\<close>

lemma first_pass_order:
  assumes "reordered cfg cfg'"
  shows "first_pass cfg' ms = first_pass cfg ms"
proof -
  note sets = reordered_sets [OF assms]
  have "first_pass_fn cfg' = first_pass_fn cfg"
    by (intro ext) (simp add: first_pass_fn_def collect_class_def sets)
  then show ?thesis by (simp add: first_pass_def first_pass_meta_def [abs_def])
qed

lemma second_pass_order: "reordered cfg cfg' \<Longrightarrow> second_pass cfg' gd raw c = second_pass cfg gd raw c"
  by (simp add: second_pass_def resolve_all_callbacks resolved_callbacks_def reordered_sets(1))

lemma function_section_order: "reordered cfg cfg' \<Longrightarrow> function_section cfg' c = function_section cfg c"
  by (simp add: function_section_def reordered_sets(3))

text \<open>The depth that is enough for the search from any sidecar\<close>

definition deep_enough :: "nat \<Rightarrow> metas \<Rightarrow> config \<Rightarrow> bool" where
  "deep_enough depth ms cfg \<longleftrightarrow>
     (\<forall>s \<in> set (sidecar cfg). \<exists>m. metas_by_name ms (boundary_name s) = Inr m \<and> length (m_edge m) + 1 < depth)"

lemma sidecar_inflect_order:
  assumes "sidecar_inflect depth ms ss iv = Inr left" "set ss = set ss'"
    and "\<And>s. s \<in> set ss \<Longrightarrow> \<exists>m. metas_by_name ms (boundary_name s) = Inr m \<and> length (m_edge m) + 1 < depth"
  shows "sidecar_inflect depth ms ss' iv = Inr left"
proof -
  have "set ss' \<subseteq> iv" using sidecar_inflect_linked [OF assms(1)] assms(2) by simp
  then obtain left' where "sidecar_inflect depth ms ss' iv = Inr left'"
    using sidecar_inflect_returns [of ss' iv ms depth] assms(2,3) by auto
  with sidecar_inflect_reach [OF this] sidecar_inflect_reach [OF assms(1)] assms(2) show ?thesis by simp
qed

lemma arithmetics_order:
  assumes "func_class_arithmetics depth cfg ms es c = Inr c'" "reordered cfg cfg'" "deep_enough depth ms cfg"
  shows "func_class_arithmetics depth cfg' ms es c = Inr c'"
proof -
  note sets = reordered_sets [OF assms(2)]
  from arithmetics_run [OF assms(1)] obtain left where
    left: "sidecar_inflect depth ms (sidecar cfg) (in_vmlinux c) = Inr left"
    "set (sidecar cfg) \<inter> border (classify_callbacks c) = {}"
    "c' = classify_outsiders es ((classify_callbacks c)\<lparr>fc_sidecar := set (sidecar cfg),
           sdcr_left := left, sdcr_out := sdcr_fns c - left\<rparr>)" by metis
  have "sidecar_inflect depth ms (sidecar cfg') (in_vmlinux c) = Inr left"
    using assms(3) by (intro sidecar_inflect_order [OF left(1) sets(2)]) (simp add: deep_enough_def)
  with left(2,3) sets(2) show ?thesis
    by (simp add: func_class_arithmetics_def Let_def py_assert_def)
qed

lemma analyze_order:
  assumes run: "analyze order depth cfg raw elf = Inr a" and "iterates order" "iterates order'"
    and cfg: "reordered cfg cfg'" "unambiguous cfg (fn_signature ` set (all_fns (map snd raw))) elf"
    and "deep_enough depth (a_metas a) cfg"
  shows "analyze order' depth cfg' raw elf = Inr a"
proof -
  from run obtain p l where p: "first_pass cfg (map snd raw) = Inr p" "link_globals (p1_globals p) = Inr l"
    by (auto simp: analyze_def Let_def res_elims)
  obtain c ms es where second: "second_pass cfg (global_fn_dict l) raw ((p1_class p)\<lparr>fake_global := fake l\<rparr>) = (c, ms, es)"
    by (metis prod_cases3)
  from run obtain vm c' where
    steps: "find_in_vmlinux cfg (fn c) elf = Inr vm"
      "func_class_arithmetics depth cfg ms es
         (c\<lparr>in_vmlinux := vm_in_vmlinux vm, mangled := vm_mangled vm, export := vm_export vm\<rparr>) = Inr c'"
      "sanity_checks order depth ms c' = Inr ()"
    and a: "a = \<lparr>a_class = c', a_metas = ms, a_edges = es, a_globals = global_fn_dict l,
       a_warnings = warnings l, a_decls = p1_decls p, a_hdr_fns = p1_hdr_fns p,
       a_sympos = local_sympos vm, a_function = function_section cfg c',
       a_structs = struct_properties (public_user c') ms\<rparr>"
    by (auto simp: analyze_def Let_def res_elims p second)
  from first_pass_inv [of cfg "map snd raw"] p(1) have
    "p1_class p = class_of cfg (all_fns (map snd raw)) (all_interfaces (map snd raw))"
    by (auto simp: pass1_inv_def)
  with second have "fn c = fn_signature ` set (all_fns (map snd raw))"
    by (auto simp: second_pass_def Let_def resolve_all_callbacks)
  with cfg have vm: "find_in_vmlinux cfg' (fn c) elf = Inr vm"
    using find_in_vmlinux_order steps(1) by simp
  have "ms = a_metas a" by (simp add: a)
  with assms(6) have arith: "func_class_arithmetics depth cfg' ms es
      (c\<lparr>in_vmlinux := vm_in_vmlinux vm, mangled := vm_mangled vm, export := vm_export vm\<rparr>) = Inr c'"
    by (intro arithmetics_order [OF steps(2) cfg(1)]) simp
  from analyze_run [OF run] obtain l' vm' where
    "func_class_arithmetics depth cfg (a_metas a) (a_edges a) (start_class cfg raw l' vm') = Inr (a_class a)" by metis
  from finite_border [OF this] have "finite ((fc_sidecar c' \<union> border c') \<inter> mangled c')" by (simp add: a)
  with steps(3) have "sanity_checks order' depth ms c' = Inr ()"
    using assms(2,3) by (simp add: sanity_checks_def res_fold_unit iterates_set)
  with p second vm arith show ?thesis
    using cfg(1) by (simp add: analyze_def Let_def first_pass_order second_pass_order function_section_order a)
qed

subsection \<open>The headers\<close>

lemma order_mset:
  assumes "iterates order" "iterates order'" "finite S"
  shows "mset (order S) = mset (order' S)"
proof -
  have "set (order S) = set (order' S)" "distinct (order S)" "distinct (order' S)"
    using assms by (simp_all add: iterates_def)
  then show ?thesis by (simp add: set_eq_iff_mset_eq_distinct)
qed

lemma finite_written:
  assumes "analyze order depth cfg raw elf = Inr a"
  shows "finite (tainted (a_class a))" "finite (und (a_class a))"
proof -
  from analyze_run [OF assms] obtain l vm where
    run: "func_class_arithmetics depth cfg (a_metas a) (a_edges a) (start_class cfg raw l vm) = Inr (a_class a)" by metis
  note fields = arithmetics_fields [OF run] and fin = finite_border [OF run]
  have cb: "finite (cb_opt (a_class a))"
  proof (rule finite_subset)
    show "cb_opt (a_class a) \<subseteq> (\<Union>(name, m) \<in> set raw. resolved_callbacks cfg (global_fn_dict l) m)"
      using fields(11) by (auto simp: start_class_def)
  qed (auto split: prod.split)
  have "finite (mod_fns (a_class a))" by (simp add: fields(3) start_class_def class_of_def)
  moreover have "insider (a_class a) \<subseteq> mod_fns (a_class a)"
    using inflect_subset [of "initial_insider (a_class a)"] fields(13,19) by blast
  ultimately have "finite (insider (a_class a))" "finite (sched_outsider (a_class a))"
    using cb fields(20) by (auto intro: finite_subset)
  with fin fields(23,24) show "finite (tainted (a_class a))" "finite (und (a_class a))" by simp_all
qed

lemma tainted_order:
  assumes "analyze order depth cfg raw elf = Inr a" "iterates o1" "iterates o2"
  shows "mset (tainted_functions o1 a) = mset (tainted_functions o2 a)"
  using order_mset [OF assms(2,3) finite_written(1) [OF assms(1)]]
  by (simp add: tainted_functions_def)

lemma undefined_order:
  assumes "analyze order depth cfg raw elf = Inr a" "iterates o1" "iterates o2"
  shows "mset (undefined_entries o1 a) = mset (undefined_entries o2 a)"
  using order_mset [OF assms(2,3) finite_written(2) [OF assms(1)]]
  by (simp add: undefined_entries_def)

lemma export_order:
  assumes "analyze order depth cfg raw elf = Inr a" "iterates o1" "iterates o2"
  shows "export_jump o1 a = Inr js \<longleftrightarrow> export_jump o2 a = Inr js"
  using export_jump_outcome [OF assms(1,2)] export_jump_outcome [OF assms(1,3)]
  by (auto simp: isl_def split: if_splits)

end
