(* ===== verification/Spec2Isabelle.thy ===== *)
theory Spec2Isabelle
  imports Plugin Cli Tools Paths KernelTree Orders
begin

text \<open>
  \<^bold>\<open>plugsched: the boundary between the scheduler module and the kernel\<close>

  plugsched moves the scheduler of a Linux kernel into a loadable module. It has to decide
  which functions move (\<^emph>\<open>insiders\<close>), which are replaced by springboards when the module is
  loaded (\<^emph>\<open>border\<close>: interfaces and callbacks), which stay in the kernel (\<^emph>\<open>outsiders\<close>) and
  which functions of other files are replaced with them (\<^emph>\<open>sidecars\<close>). The library models the
  Python programs that decide this and rewrite the sources.

  \<^bold>\<open>The program\<close>

  \<^enum> \<open>boundary/collect.py\<close> runs inside GCC, once per compilation unit, and writes functions,
    variables, call edges, callbacks, interfaces and struct fields to a metadata file.
  \<^enum> \<open>boundary/analyze.py\<close> reads all metadata files, the configuration and the symbol table of
    vmlinux, resolves names as the linker does, computes the function classes, checks them,
    and writes the result for the next stage and three headers for the module loader.
  \<^enum> \<open>boundary/extract.py\<close> rewrites each source file of the module by these classes, line by
    line, in place: the number of lines never changes, so the rows GCC reported stay valid.
  \<^enum> \<open>cli.py\<close> selects the configuration for a kernel release and runs the stages;
    \<open>tools/yaml-diff.py\<close> compares two configurations.

  \<^bold>\<open>The theories\<close>

  \<^descr> \<open>Prelude\<close>: the result type \<open>'a res\<close> (an exception or a value), loops and comprehensions
    that may raise, dictionaries with insertion order; the collections \<open>res_elims\<close> and
    \<open>res_simps\<close>.
  \<^descr> \<open>PyText\<close>: the string and path functions of the Python library that the sources use.
  \<^descr> \<open>Paths\<close>: what \<open>relpath\<close> promises: the path leads to the same file.
  \<^descr> \<open>Metadata\<close>: the records of the metadata files and of the configuration.
  \<^descr> \<open>GccTree\<close>: the attributes of the plugin's objects that \<open>collect.py\<close> reads. The plugin is a
    parameter of the model: a compilation unit is an input, the walk over a tree is the list of
    the nodes in the order of the visit.
  \<^descr> \<open>GccBugs\<close>: the class of this name, the repairs of declarations as GCC prints them.
  \<^descr> \<open>Collect\<close>: the class \<open>Collection\<close>, one definition per pass (\<open>collect_fn\<close>, \<open>collect_var\<close>,
    \<open>collect_callback\<close>, \<open>collect_struct\<close>, \<open>collect_edge\<close>, \<open>collect_info\<close>); exact descriptions
    of functions, edges and callbacks. \<open>StructUses\<close>: the struct pass; \<open>Plugin\<close>: its properties.
  \<^descr> \<open>Linkage\<close>: the first pass over the metadata and the choice of one definition per global
    name, against the specification \<open>linked_file\<close> (strongest definition, then smallest path).
  \<^descr> \<open>Vmlinux\<close>: \<open>find_in_vmlinux\<close>, a state machine over the lines of \<open>readelf\<close>.
  \<^descr> \<open>Inflect\<close>: \<open>inflect\<close>, with the locale \<open>pruning\<close> for loops that delete until nothing is
    deletable: they compute the greatest stable subset.
  \<^descr> \<open>Sidecar\<close>, \<open>Redirect\<close>: the two recursive searches over the edges of one file.
  \<^descr> \<open>Arithmetics\<close>: \<open>func_class_arithmetics\<close>, and the locale \<open>boundary_contract\<close> of what later
    stages may rely on.
  \<^descr> \<open>Analyze\<close>: reading of the metadata files, the main block of \<open>analyze.py\<close> and the three
    headers; the locale \<open>metadata_source\<close> of what the analysis relies on, interpreted in
    \<open>Collect\<close>. \<open>Orders\<close>: two runs of the analysis with different iteration orders of its sets.
  \<^descr> \<open>Lines\<close>, \<open>Extract\<close>: the line merging and the edits of \<open>extract.py\<close>. The locales
    \<open>line_count\<close> and \<open>line_editing\<close> state what an edit may touch; every edit interprets them.
  \<^descr> \<open>Tasks\<close>: programs on shared files; the locale \<open>file_tasks\<close> states which files a program may
    change and on which its effect depends, and that separate programs can run in any order.
  \<^descr> \<open>Files\<close>: the contents of the files and the main programs of \<open>collect.py\<close>, \<open>analyze.py\<close> and
    \<open>extract.py\<close> on them; two interpretations of \<open>file_tasks\<close>.
  \<^descr> \<open>Pipeline\<close>: the three stages as \<open>Makefile.plugsched\<close> and \<open>Plugsched.extract\<close> run them, as a step
    relation (\<open>pipe_step\<close>) and as a sequential run (\<open>run_pipeline\<close>). \<open>Layout\<close>: the directories that
    \<open>cli.py\<close> gives the stages keep their jobs apart.
  \<^descr> \<open>Cli\<close>, \<open>Tools\<close>: the two command line programs. What a command of \<open>cli.py\<close> does to the
    system is the list of the actions it runs, until one of them fails; the record \<open>world\<close>
    says which fail.
  \<^descr> \<open>Example\<close>: a small kernel on which the properties are applied, from the compilation units
    (\<open>ex_unit\<close>) through the metadata (\<open>ex_core\<close>) and the classes to the extracted file;
    \<open>KernelTree\<close> places it in a tree of files and runs the whole pipeline on it.

  \<^bold>\<open>State and operations\<close>

  The attributes of \<open>func_class\<close>, which the code fills one assignment after the other, are
  the record \<open>func_class\<close>; each assignment is a record update in the same order. The globals
  of the main block are the fields of \<open>analysis\<close>, \<open>linkage\<close>, \<open>pass1\<close> and \<open>vm_state\<close>. Dictionaries whose
  order or overwriting matters are association lists. A raised exception, a failed assertion,
  a missing key, an index out of range or a failed command is an \<open>Inl\<close> value, in the order of
  the code. Where the code iterates a set, the order is a parameter: for sets of functions the
  function \<open>order\<close> (\<open>iterates\<close>), for the sets of the configuration the list that stands for
  the set (\<open>py_set\<close>), so the theorems hold for every order; \<open>analyze_order_independent\<close> says
  when two orders give the same result. The uses of a struct field are listed in the order of
  the accesses, which for the code is arbitrary.

  The stages communicate through files (\<open>files\<close>, from absolute paths to typed contents): the
  configuration, one metadata file per unit, the symbols of the headers, the configuration of
  the extraction with the classes, the sources and the generated headers. A main program maps
  the files to the files and an outcome; if it raises, what it has written so far remains. In
  a run of the stages each program is one step. The collection of the units and the
  extraction of the sources are parallel jobs of make, in any order; a stage starts when the
  one before is complete, and the first error stops the run.

  \<^bold>\<open>What is shown\<close>

  Whole runs: a finished run has extracted every source of the module from its text and from
  an analysis of the metadata of all units (\<open>finished_module_files\<close>); the order of the jobs does
  not matter (\<open>pipeline_any_order\<close>), and a run that can succeed does (\<open>pipeline_live\<close>); an
  analysis that fails leaves nothing or an empty export table (\<open>analysis_outcome\<close>). These hold for trees in which the jobs do not write each other's files
  (\<open>separate_jobs\<close>, \<open>well_placed\<close>), which holds in the directories that \<open>cli.py\<close> sets up if the
  sources lie outside \<open>working/\<close> and \<open>kernel/sched/mod/\<close> and have different base names
  (\<open>sandbox_well_placed\<close>).

  The chain from the compiler to the extracted file is covered by properties that span the
  theories: a compiled call of an insider makes its caller a known class member
  (\<open>finished_run_callers\<close>), a function whose address is taken, other than by a scheduler
  class or a discarded variable, becomes a border function (\<open>address_taken_is_border\<close>), an access to a header struct from outside is reported
  (\<open>outside_access_reported\<close>), the insiders are the largest set closed under callers
  (\<open>analyze_insider_maximal\<close>, \<open>inflect_reachability\<close>), their code is extracted verbatim
  (\<open>insider_kept_verbatim\<close>), outsiders become declarations (\<open>outsider_becomes_declaration\<close>)
  and rewritten include paths name the same file (\<open>include_resolves\<close>). The other properties
  describe single operations on all branches, their errors included: the line edits down to
  the text they write (\<open>merge_down_fn_balanced\<close>, \<open>fix_up_spec\<close>), the symbol positions by the
  lines of the symbol table (\<open>sympos_rank\<close>), and the commands of \<open>cli.py\<close> on systems where
  commands fail (\<open>init_stage_order\<close>, \<open>build_needs_arch\<close>).

  \<^bold>\<open>Bounds\<close>

  \<open>depth\<close> is the number of nested calls that the interpreter allows: at 0 the recursive
  searches return \<open>RecursionError\<close>. \<open>sidecar_inflect_terminates\<close> and \<open>check_redirect_returns\<close>
  give depths that are enough, in terms of the number of edges; for cyclic optimised
  callers there is none (\<open>check_redirect_diverges\<close>). The fuel of \<open>climb_parents\<close> is one more
  than the number of parents, which is enough for any chain without repetition
  (\<open>collect_struct_terminates\<close>); \<open>NonTermination\<close> stands for the endless loop. All other loops
  are structural or come with a measure. Numbers are unbounded, as in Python; rows and
  columns are natural numbers, since GCC counts both from 1 and the code subtracts 1.

  \<^bold>\<open>Not modelled\<close>

  The encoding of files as JSON and YAML (a file of another kind than the reader expects is a
  \<open>ValueError\<close>), directories and their creation, \<open>docopt\<close> and the log output. GCC, \<open>readelf\<close>,
  \<open>os.walk\<close>, \<open>awk\<close>, the shell's \<open>glob\<close> and the outcome of every command that \<open>cli.py\<close> runs are
  parameters: what such a command does to the file system is not modelled, except for the three
  stages, which \<open>Pipeline\<close> models on files. There the step \<open>make olddefconfig\<close> before the
  collection, which only writes the kernel configuration, is left out (\<open>Cli\<close> has it). That
  jobs of make overlap in time is modelled by their order only, and jobs that make still
  completes after an error are not.
  The C sources of the module run-time (\<open>src/\<close>), the shell tools, the kernel configurations,
  patches and tests are in other languages or hold no logic of this program.
\<close>

section \<open>The boundary analysis\<close>

text \<open>C9: a caller of an insider, in any metadata file with the callee as the linker resolves
  it, is an insider, a border function, an init function, a sidecar, or a weak definition
  that another one overrides.\<close>

theorem analyze_insider_callers:
  assumes "analyze order depth cfg raw elf = Inr a"
    and "(name, m) \<in> set raw" "e \<in> set (m_edge m)"
    and "lookup_if_global (a_globals a) (re_to e) = Some t" "t \<in> insider (a_class a)"
  shows "re_from e \<in> insider (a_class a) \<union> border (a_class a) \<union> init (a_class a)
    \<union> fc_sidecar (a_class a) \<union> fake_global (a_class a)"
  using assms by (rule insider_caller)

theorem analyze_insider_callers_witness:
  "\<exists>a. analyze sorted_list_of_set 20 ex_cfg ex_raw ex_elf = Inr a \<and>
    (''schedule'', CORE) \<in> insider (a_class a) \<union> border (a_class a) \<union> init (a_class a)
      \<union> fc_sidecar (a_class a) \<union> fake_global (a_class a)"
proof -
  obtain a where a: "analyze sorted_list_of_set 20 ex_cfg ex_raw ex_elf = Inr a"
    "insider (a_class a) = {(''pick'', CORE)}" by (rule ex_run)
  have "lookup_if_global (a_globals a) (''pick'', CORE) = Some (''pick'', CORE)"
    by (simp add: lookup_if_global_def CORE_def)
  with analyze_insider_callers [OF a(1), of "''kernel/sched/core.c.boundary''" ex_core
      "\<lparr>re_from = (''schedule'', CORE), re_to = (''pick'', CORE)\<rparr>" "(''pick'', CORE)"] a
  show ?thesis by (auto simp: ex_raw_def ex_core_def)
qed

text \<open>C3: the insiders are the largest possible: every set of module functions that holds no
  border or exported function, and that is called only from within itself and from the
  border, the init functions and the sidecars, consists of insiders, up to init functions
  and overridden weak definitions.\<close>

theorem analyze_insider_maximal:
  assumes "analyze order depth cfg raw elf = Inr a"
    and "J \<subseteq> mod_fns (a_class a) - border (a_class a) - export (a_class a)"
    and "\<forall>(f, t) \<in> set (a_edges a). t \<in> J \<longrightarrow>
      f \<in> J \<union> border (a_class a) \<union> init (a_class a) \<union> fc_sidecar (a_class a)"
  shows "J - init (a_class a) - fake_global (a_class a) \<subseteq> insider (a_class a)"
proof -
  from analyze_run [OF assms(1)] obtain l vm where
    "func_class_arithmetics depth cfg (a_metas a) (a_edges a) (start_class cfg raw l vm) = Inr (a_class a)"
    by metis
  note fields = arithmetics_fields [OF this]
  have "set (delete_insider (a_edges a) (inflect_cut (a_class a)) J) = {}"
    using assms(3) by (auto simp: set_delete_insider fields(18))
  moreover have "J \<subseteq> initial_insider (a_class a)" using assms(2) by (simp add: fields(13))
  ultimately have "J \<subseteq> inflect (initial_insider (a_class a)) (a_edges a) (inflect_cut (a_class a))"
    unfolding inflect_def by (rule inflect.loop_keeps_stable)
  then show ?thesis by (auto simp: fields(19))
qed

theorem analyze_insider_maximal_witness:
  "\<exists>a. analyze sorted_list_of_set 20 ex_cfg ex_raw ex_elf = Inr a \<and>
    {(''pick'', CORE)} - init (a_class a) - fake_global (a_class a) \<subseteq> insider (a_class a)"
proof -
  obtain a where a: "analyze sorted_list_of_set 20 ex_cfg ex_raw ex_elf = Inr a"
    "border (a_class a) = {(''schedule'', CORE), (''tick'', CORE)}"
    "mod_fns (a_class a) =
       {(''schedule'', CORE), (''pick'', CORE), (''tick'', CORE), (''helper'', CORE), (''fast'', CORE)}"
    "export (a_class a) = {}"
    "a_edges a = [((''schedule'', CORE), (''pick'', CORE)), ((''pick'', CORE), (''helper'', CORE)),
      ((''helper'', CORE), (''fast'', CORE)), ((''copy'', FORK), (''helper'', CORE)),
      ((''charge'', ACCT), (''sum'', ACCT))]" by (rule ex_run)
  have "{(''pick'', CORE)} - init (a_class a) - fake_global (a_class a) \<subseteq> insider (a_class a)"
    by (rule analyze_insider_maximal [OF a(1)]) (simp_all add: a)
  with a(1) show ?thesis by blast
qed

text \<open>C20: every function of the module files is an insider, a border function or an
  outsider, and these classes overlap only in two ways: a callback without a symbol in
  vmlinux may be an insider and an outsider, and a border function is an outsider exactly if
  it is an overridden weak definition.\<close>

theorem analyze_classes_cover:
  assumes "analyze order depth cfg raw elf = Inr a"
  shows "mod_fns (a_class a) \<subseteq> insider (a_class a) \<union> border (a_class a) \<union> sched_outsider (a_class a) \<and>
    insider (a_class a) \<inter> border (a_class a) = {} \<and>
    insider (a_class a) \<inter> sched_outsider (a_class a) = insider (a_class a) \<inter> cb_opt (a_class a) \<and>
    border (a_class a) \<inter> sched_outsider (a_class a) = border (a_class a) \<inter> fake_global (a_class a) \<inter> mod_fns (a_class a) \<and>
    fc_sidecar (a_class a) \<inter> border (a_class a) = {}"
proof -
  from analyze_run [OF assms] obtain l vm where
    "func_class_arithmetics depth cfg (a_metas a) (a_edges a) (start_class cfg raw l vm) = Inr (a_class a)"
    by metis
  then have run: "arithmetics_of (depth, cfg, a_metas a, a_edges a, start_class cfg raw l vm) = Inr (a_class a)"
    by (simp add: arithmetics_of_def)
  show ?thesis
    using arith.mod_fns_covered [OF run] arith.insider_inner [OF run] arith.insider_outsider_overlap [OF run]
      arith.border_outsider_overlap [OF run] arith.sidecar_disjoint [OF run] by blast
qed

theorem analyze_classes_cover_witness:
  "\<exists>a. analyze sorted_list_of_set 20 ex_cfg ex_raw ex_elf = Inr a \<and>
    mod_fns (a_class a) \<subseteq> insider (a_class a) \<union> border (a_class a) \<union> sched_outsider (a_class a)"
proof -
  obtain a where "analyze sorted_list_of_set 20 ex_cfg ex_raw ex_elf = Inr a" by (rule ex_run)
  with analyze_classes_cover [OF this] show ?thesis by blast
qed

text \<open>C10: no border function or sidecar that the compiler optimised is reached, along
  same-file call chains of optimised or unlinked functions, from an outsider: the analysis
  fails before it writes a file otherwise.\<close>

theorem analyze_redirect_safe:
  assumes "analyze order depth cfg raw elf = Inr a" "iterates order"
    and "sg \<in> (fc_sidecar (a_class a) \<union> border (a_class a)) \<inter> mangled (a_class a)"
  shows "\<exists>m. metas_by_name (a_metas a) (boundary_name sg) = Inr m \<and>
    \<not> unsafe_redirect (a_class a) (m_edge m) sg"
proof -
  from analyze_run [OF assms(1)] obtain l vm where
    "func_class_arithmetics depth cfg (a_metas a) (a_edges a) (start_class cfg raw l vm) = Inr (a_class a)"
    and checks: "sanity_checks order depth (a_metas a) (a_class a) = Inr ()"
    by metis
  from finite_border [OF this(1)] have "finite ((fc_sidecar (a_class a) \<union> border (a_class a)) \<inter> mangled (a_class a))"
    by simp
  from sanity_checks_ok [OF assms(2) this checks assms(3)] show ?thesis .
qed

theorem analyze_redirect_safe_witness:
  "\<exists>a m. analyze sorted_list_of_set 20 ex_cfg ex_raw ex_elf = Inr a \<and>
    metas_by_name (a_metas a) (boundary_name (''schedule'', CORE)) = Inr m \<and>
    \<not> unsafe_redirect (a_class a) (m_edge m) (''schedule'', CORE)"
proof -
  obtain a where a: "analyze sorted_list_of_set 20 ex_cfg ex_raw ex_elf = Inr a"
    "border (a_class a) = {(''schedule'', CORE), (''tick'', CORE)}"
    "mangled (a_class a) = {(''fast'', CORE), (''schedule'', CORE)}" by (rule ex_run)
  from analyze_redirect_safe [OF a(1) iterates_sorted, of "(''schedule'', CORE)"] a show ?thesis by blast
qed

text \<open>C15: the sidecar functions that stay in the kernel's copy of a file are exactly those the
  sidecars reach through same-file calls of functions without a symbol in vmlinux; all other
  functions of the sidecar files become outsiders of their file.\<close>

theorem analyze_sidecar_reach:
  assumes "analyze order depth cfg raw elf = Inr a"
  shows "sdcr_out (a_class a) = sdcr_fns (a_class a) -
    (sidecar_rel (a_metas a) (in_vmlinux (a_class a)))\<^sup>* `` set (sidecar cfg)"
proof -
  from analyze_run [OF assms] obtain l vm where
    "func_class_arithmetics depth cfg (a_metas a) (a_edges a) (start_class cfg raw l vm) = Inr (a_class a)"
    by metis
  note fields = arithmetics_fields [OF this]
  from sidecar_inflect_reach [OF fields(16)] fields(17) show ?thesis by simp
qed

theorem analyze_sidecar_reach_witness:
  "\<exists>a. analyze sorted_list_of_set 20 ex_cfg ex_raw ex_elf = Inr a \<and> sdcr_out (a_class a) = sdcr_fns (a_class a) -
    (sidecar_rel (a_metas a) (in_vmlinux (a_class a)))\<^sup>* `` {(''charge'', ACCT)}"
proof -
  obtain a where "analyze sorted_list_of_set 20 ex_cfg ex_raw ex_elf = Inr a" by (rule ex_run)
  with analyze_sidecar_reach [OF this] show ?thesis by (auto simp: sidecar_def ex_cfg_def)
qed

text \<open>C25: every function that the module redirects or calls back into by its symbol has one: the
  functions handed to the symbol resolver, interfaces and init functions apart, and all
  tainted functions are in vmlinux.\<close>

theorem analyze_symbols_linked:
  assumes "analyze order depth cfg raw elf = Inr a"
  shows "und (a_class a) - interface (a_class a) - init (a_class a) \<subseteq> in_vmlinux (a_class a) \<and>
    tainted (a_class a) \<subseteq> in_vmlinux (a_class a) \<and> callback (a_class a) \<subseteq> in_vmlinux (a_class a) \<and>
    set (sidecar cfg) \<subseteq> in_vmlinux (a_class a)"
proof -
  from analyze_run [OF assms] obtain l vm where
    arith: "func_class_arithmetics depth cfg (a_metas a) (a_edges a) (start_class cfg raw l vm) = Inr (a_class a)"
    by metis
  then have run: "arithmetics_of (depth, cfg, a_metas a, a_edges a, start_class cfg raw l vm) = Inr (a_class a)"
    by (simp add: arithmetics_of_def)
  show ?thesis
    using arith.und_linked [OF run] arith.tainted_eq [OF run] arith.callback_linked [OF run]
      arith.sidecar_linked [OF run] arithmetics_fields(14) [OF arith] by blast
qed

theorem analyze_symbols_linked_witness:
  "\<exists>a. analyze sorted_list_of_set 20 ex_cfg ex_raw ex_elf = Inr a \<and>
    und (a_class a) - {(''schedule'', CORE)} \<subseteq> in_vmlinux (a_class a)"
proof -
  obtain a where "analyze sorted_list_of_set 20 ex_cfg ex_raw ex_elf = Inr a"
    "interface (a_class a) = {(''schedule'', CORE)}" "init (a_class a) = {}" by (rule ex_run)
  with analyze_symbols_linked [OF this(1)] show ?thesis by auto
qed

text \<open>C31: when the result of the analysis does not depend on the orders in which Python iterates
  its sets. If no lookup of \<open>find_in_vmlinux\<close> has two answers (the files of the boundary have
  different base names, the name of a global symbol is that of one boundary function only,
  the name of a local one that of one header function, an exported name that of one module
  function) and the recursion is deep enough for every sidecar, then for any other order of
  the sets of functions and of those of the configuration the analysis succeeds with the same
  classes, symbol positions, struct fields and sections for the extraction, the export table
  is the same file, and the two other headers have the same lines or entries, in another
  order. (Otherwise the first file in the order of the set is taken: \<open>get_in_any_ambiguous\<close>.)\<close>

theorem analyze_order_independent:
  assumes "analyze order depth cfg raw elf = Inr a" "iterates order" "iterates order'"
    and "reordered cfg cfg'" "unambiguous cfg (fn_signature ` set (all_fns (map snd raw))) elf"
    and "deep_enough depth (a_metas a) cfg"
  shows "analyze order' depth cfg' raw elf = Inr a \<and>
    (export_jump order a = Inr js \<longleftrightarrow> export_jump order' a = Inr js) \<and>
    mset (tainted_functions order a) = mset (tainted_functions order' a) \<and>
    mset (undefined_entries order a) = mset (undefined_entries order' a)"
  using analyze_order [OF assms] export_order [OF assms(1-3)] tainted_order [OF assms(1-3)]
    undefined_order [OF assms(1-3)] by blast

text \<open>The configuration of the example, its module files in the other order\<close>

definition ex_cfg_rev :: config where
  "ex_cfg_rev = ex_cfg\<lparr>mod_files := rev (mod_files ex_cfg)\<rparr>"

theorem analyze_order_independent_witness:
  "\<exists>a. analyze sorted_list_of_set 20 ex_cfg ex_raw ex_elf = Inr a \<and>
    analyze (rev \<circ> sorted_list_of_set) 20 ex_cfg_rev ex_raw ex_elf = Inr a \<and>
    mset (tainted_functions sorted_list_of_set a) = mset (tainted_functions (rev \<circ> sorted_list_of_set) a)"
proof -
  obtain a where a: "analyze sorted_list_of_set 20 ex_cfg ex_raw ex_elf = Inr a" by (rule ex_run)
  have "iterates (rev \<circ> sorted_list_of_set :: sig set \<Rightarrow> sig list)" by (simp add: iterates_def)
  moreover have "reordered ex_cfg ex_cfg_rev"
    by (simp add: reordered_def ex_cfg_rev_def ex_cfg_def)
  moreover have "unambiguous ex_cfg (fn_signature ` set (all_fns (map snd ex_raw))) ex_elf" by code_simp
  moreover have "a_metas a = map (\<lambda>(name, m). (name, resolve_meta (a_globals a) m)) ex_raw"
    by (rule analyze_run [OF a])
  then have "deep_enough 20 (a_metas a) ex_cfg"
    by (simp add: deep_enough_def metas_by_name_def boundary_name_def resolve_meta_def sidecar_def ex_cfg_def
        ex_raw_def ex_acct_def ACCT_def)
  ultimately show ?thesis using analyze_order_independent [OF a iterates_sorted] a by blast
qed

section \<open>Linking and symbols\<close>

text \<open>Strong symbols override weak ones: if a public function of a C file defines a name
  without being weak, the file bound to the name holds such a definition.\<close>

theorem strong_overrides_weak:
  assumes "f \<in> set (all_fns ms)" "fn_public f" "\<not> fn_weak f" "ends_with (fn_file f) ''.c''"
    and "first_pass cfg ms = Inr p" "link_globals (p1_globals p) = Inr l"
  shows "\<exists>g \<in> set (all_fns ms). fn_name g = fn_name f \<and> fn_public g \<and> \<not> fn_weak g \<and>
    map_of (global_fn_dict l) (fn_name f) = Some (fn_file g)"
proof -
  let ?D = "global_definitions (all_fns ms) (fn_name f)"
  have strong: "(STRONG, fn_file f) \<in> ?D"
    using assms(1-4) by (force simp: global_definitions_def is_global_def_def def_prio_def)
  then have min: "strongest ?D \<in> ?D" "strongest ?D \<le> (STRONG, fn_file f)"
    unfolding strongest_def by (auto intro!: Min_in Min_le)
  then have "fst (strongest ?D) \<le> STRONG"
    by (cases "strongest ?D") (auto simp: less_eq_prod_def)
  then have "fst (strongest ?D) = STRONG" by (rule antisym) (rule STRONG_least)
  with min(1) obtain g where g: "g \<in> set (all_fns ms)" "is_global_def g" "fn_name g = fn_name f"
    "strongest ?D = (STRONG, fn_file g)" "def_prio g = STRONG"
    by (auto simp: global_definitions_def)
  from first_pass_inv [of cfg ms] assms(5) have "pass1_inv cfg (all_fns ms) (all_interfaces ms) p" by auto
  then have "globals_inv (all_fns ms) (p1_globals p)" by (simp add: pass1_inv_def)
  from globals_inv_link [OF this] assms(6) have "map_of (global_fn_dict l) = linked_file (all_fns ms)" by auto
  with strong g have "map_of (global_fn_dict l) (fn_name f) = Some (fn_file g)"
    by (auto simp: linked_file_def)
  with g show ?thesis
    by (auto simp: is_global_def_def def_prio_def split: if_splits intro!: bexI [of _ g])
qed

theorem strong_overrides_weak_witness:
  "\<exists>p l. first_pass ex_cfg (map snd ex_raw) = Inr p \<and> link_globals (p1_globals p) = Inr l \<and>
    (\<exists>g \<in> set (all_fns (map snd ex_raw)). fn_name g = ''helper'' \<and> fn_public g \<and> \<not> fn_weak g \<and>
      map_of (global_fn_dict l) ''helper'' = Some (fn_file g))"
proof -
  from first_pass_inv [of ex_cfg "map snd ex_raw"] obtain p where p: "first_pass ex_cfg (map snd ex_raw) = Inr p"
    "pass1_inv ex_cfg (all_fns (map snd ex_raw)) (all_interfaces (map snd ex_raw)) p" by blast
  then have "globals_inv (all_fns (map snd ex_raw)) (p1_globals p)" by (simp add: pass1_inv_def)
  from globals_inv_link [OF this] obtain l where l: "link_globals (p1_globals p) = Inr l" by blast
  have "ex_fn ''helper'' CORE True 4 \<in> set (all_fns (map snd ex_raw))"
    by (simp add: all_fns_def ex_raw_def ex_core_def)
  from strong_overrides_weak [OF this _ _ _ p(1) l] p(1) l show ?thesis
    by (auto simp: ex_fn_def CORE_def ends_with_def)
qed

text \<open>C32: what is found in vmlinux are functions of the metadata, in files of the boundary, with
  a plain symbol name, and exported functions lie in module files.\<close>

theorem vmlinux_known:
  assumes "find_in_vmlinux cfg fns lines = Inr s"
  shows "vm_in_vmlinux s \<subseteq> {sg \<in> fns. snd sg \<in> set (all_files cfg) \<and> CHR ''.'' \<notin> set (fst sg)} \<and>
    vm_export s \<subseteq> {sg \<in> fns. snd sg \<in> set (mod_files cfg)} \<and> dom (local_sympos s) \<subseteq> vm_in_vmlinux s"
  using vm_inv_result [OF assms] by (fastforce simp: vm_inv_def contains_char)

theorem vmlinux_known_witness:
  "\<exists>s. find_in_vmlinux ex_cfg {(''pick'', CORE)} ex_elf = Inr s \<and>
    vm_in_vmlinux s \<subseteq> {sg \<in> {(''pick'', CORE)}. snd sg \<in> set (all_files ex_cfg) \<and> CHR ''.'' \<notin> set (fst sg)}"
proof -
  have "\<not> isl (find_in_vmlinux ex_cfg {(''pick'', CORE)} ex_elf)" by code_simp
  then obtain s where "find_in_vmlinux ex_cfg {(''pick'', CORE)} ex_elf = Inr s"
    by (cases "find_in_vmlinux ex_cfg {(''pick'', CORE)} ex_elf") auto
  with vmlinux_known [OF this] show ?thesis by blast
qed

text \<open>C26: the symbol position of a function is fixed by the symbol table. A function of the
  boundary has position \<open>n\<close> exactly when some line \<open>i\<close> of the table is a local symbol of its
  name, read under its own file (the last \<open>FILE\<close> symbol above the line) or, for a function
  of a module header, under a boundary file that has no function of that name, when no later
  line is, and when \<open>n\<close> of the lines down to line \<open>i\<close> are local symbols of that name. Two
  functions of one name never share a position.\<close>

theorem sympos_rank:
  assumes "find_in_vmlinux cfg fns (header @ ls) = Inr s" "length header = 3"
  shows "(local_sympos s (f, g) = Some n \<longleftrightarrow>
      (\<exists>i. i < length ls \<and> local_symbol cfg fns (take i ls) (ls ! i) = Some (f, g) \<and>
        (\<forall>j. i < j \<longrightarrow> j < length ls \<longrightarrow> local_symbol cfg fns (take j ls) (ls ! j) \<noteq> Some (f, g)) \<and>
        n = count_list (local_names (take (Suc i) ls)) f)) \<and>
    (local_sympos s (f, g) = Some n \<longrightarrow> h \<noteq> g \<longrightarrow> local_sympos s (f, h) \<noteq> Some n)"
proof -
  have "sympos_inv cfg fns ls s" using sympos_inv_result [OF assms(1)] assms(2) by simp
  then have inv: "pos_inv ls s"
    "local_sympos s (f, g) = Some n \<longleftrightarrow> (\<exists>i. last_symbol cfg fns ls (f, g) i \<and> n = name_rank ls f i)"
    unfolding sympos_inv_def by auto
  show ?thesis
  proof
    show "local_sympos s (f, g) = Some n \<longrightarrow> h \<noteq> g \<longrightarrow> local_sympos s (f, h) \<noteq> Some n"
      using inv(1) unfolding pos_inv_def by blast
  qed (unfold inv(2) last_symbol_def name_rank_def, blast)
qed

text \<open>Two files with a local function of one name, of which the module has the second\<close>

definition two_files :: "string list" where
  "two_files = [''1: 0 0 FILE LOCAL DEFAULT ABS fork.c'', ''2: 0 9 FUNC LOCAL DEFAULT 1 pick'',
     ''3: 0 0 FILE LOCAL DEFAULT ABS core.c'', ''4: 0 9 FUNC LOCAL DEFAULT 1 pick'']"

theorem sympos_rank_witness:
  "\<exists>i. i < length two_files \<and>
    local_symbol ex_cfg {(''pick'', CORE)} (take i two_files) (two_files ! i) = Some (''pick'', CORE) \<and>
    2 = count_list (local_names (take (Suc i) two_files)) ''pick''"
proof -
  let ?header = "['''', '''', '''']"
  have "res_map (\<lambda>s. local_sympos s (''pick'', CORE)) (find_in_vmlinux ex_cfg {(''pick'', CORE)} (?header @ two_files)) =
      Inr (Some 2)"
    by code_simp
  then obtain s where s: "find_in_vmlinux ex_cfg {(''pick'', CORE)} (?header @ two_files) = Inr s"
    "local_sympos s (''pick'', CORE) = Some 2"
    by (auto simp: res_map_Inr_iff)
  have "length ?header = 3" by simp
  from sympos_rank [OF s(1) this, of "''pick''" CORE 2] s(2) show ?thesis by blast
qed

text \<open>Two local functions of one name that the stop-machine check has to find on the stacks
  get different lines in \<open>tainted_functions.h\<close>, each with a position of at least 1.\<close>

theorem tainted_lines_distinct:
  assumes "find_in_vmlinux cfg fns lines = Inr s"
    and "local_sympos s (f, g) = Some m" "local_sympos s (f, h) = Some n" "g \<noteq> h"
  shows "tainted_line (local_sympos s) (f, g) \<noteq> tainted_line (local_sympos s) (f, h) \<and>
    tainted_line (local_sympos s) (f, g) = ''TAINTED_FUNCTION('' @ f @ '','' @ str_nat m @ '')'' @ [NL] \<and> 1 \<le> m"
proof -
  from vm_inv_result [OF assms(1)] assms(2,3) have "1 \<le> m" "1 \<le> n" by (auto simp: vm_inv_def)
  then have lines: "tainted_line (local_sympos s) (f, g) = ''TAINTED_FUNCTION('' @ f @ '','' @ str_nat m @ '')'' @ [NL]"
    "tainted_line (local_sympos s) (f, h) = ''TAINTED_FUNCTION('' @ f @ '','' @ str_nat n @ '')'' @ [NL]"
    using assms(2,3) by (simp_all add: tainted_line_def sympos_or_def Let_def)
  from pos_inv_result [OF assms(1)] assms(2-4) have "m \<noteq> n" unfolding pos_inv_def by blast
  then have "str_nat m \<noteq> str_nat n" using nat_of_str_nat by metis
  with lines \<open>1 \<le> m\<close> show ?thesis by simp
qed

theorem tainted_lines_distinct_witness:
  "\<exists>s :: vm_state. tainted_line (local_sympos s) (''up'', ''a.c'') = ''TAINTED_FUNCTION(up,1)'' @ [NL] \<and>
    tainted_line (local_sympos s) (''up'', ''a.c'') \<noteq> tainted_line (local_sympos s) (''up'', ''b.c'')"
proof -
  let ?run = "find_in_vmlinux (ex_cfg\<lparr>mod_files := [''a.c'', ''b.c'']\<rparr>) {(''up'', ''a.c''), (''up'', ''b.c'')}
     ['''', '''', '''', ''1: 0 0 FILE LOCAL DEFAULT ABS a.c'', ''2: 0 9 FUNC LOCAL DEFAULT 1 up'',
      ''3: 0 0 FILE LOCAL DEFAULT ABS b.c'', ''4: 0 9 FUNC LOCAL DEFAULT 1 up'']"
  have "res_map (\<lambda>s. (local_sympos s (''up'', ''a.c''), local_sympos s (''up'', ''b.c''))) ?run = Inr (Some 1, Some 2)"
    by code_simp
  then obtain s where s: "?run = Inr s" "local_sympos s (''up'', ''a.c'') = Some 1" "local_sympos s (''up'', ''b.c'') = Some 2"
    by (auto simp: res_map_Inr_iff)
  have "str_nat 1 = ''1''" by code_simp
  with tainted_lines_distinct [OF s] show ?thesis by (intro exI [of _ s]) auto
qed

text \<open>The fields of a struct that are reported public are those that some function outside
  the module's insiders and borders uses, and the public users are those functions.\<close>

theorem struct_fields_spec:
  assumes "struct_properties pub ms struct = Some p"
  shows "sp_public_fields p = {f. \<exists>u \<in> pub. (f, u) \<in> struct_uses ms struct} \<and>
    sp_public_users p = {u \<in> pub. \<exists>f. (f, u) \<in> struct_uses ms struct}"
  using struct_properties_sel [OF assms] by blast

theorem struct_fields_spec_witness:
  "\<exists>p. struct_properties {(''helper'', CORE)} [(''core'', resolve_meta [] ex_core)] ''rq'' = Some p \<and>
    sp_public_fields p = {f. \<exists>u \<in> {(''helper'', CORE)}. (f, u) \<in> struct_uses [(''core'', resolve_meta [] ex_core)] ''rq''}"
proof -
  have "struct_properties {(''helper'', CORE)} [(''core'', resolve_meta [] ex_core)] ''rq'' \<noteq> None"
    by (simp add: struct_properties_def resolve_meta_def ex_core_def)
  then obtain p where "struct_properties {(''helper'', CORE)} [(''core'', resolve_meta [] ex_core)] ''rq'' = Some p"
    by blast
  with struct_fields_spec [OF this] show ?thesis by blast
qed

section \<open>From the compiler to the boundary\<close>



text \<open>C22: the classes that the analysis computes from the plugin's metadata are typed by file:
  the module functions are exactly the known functions of the module files, the sidecar
  functions those of the sidecar files, and every interface is a known function.\<close>

theorem collected_classes_by_file:
  assumes "analyze order depth cfg raw elf = Inr a"
    and "\<forall>(name, m) \<in> set raw. \<exists>cwd ccfg pass u. collect_info cwd ccfg pass u = Inr (Some m)"
  shows "mod_fns (a_class a) = {s \<in> fn (a_class a). snd s \<in> set (mod_files cfg)} \<and>
    sdcr_fns (a_class a) = {s \<in> fn (a_class a). snd s \<in> set (sdcr_srcs cfg)} \<and>
    interface (a_class a) \<subseteq> fn (a_class a)"
proof -
  have src: "\<exists>i. collect_of i = Inr (Some m)" if "(name, m) \<in> set raw" for name m
  proof -
    from assms(2) that obtain cwd ccfg pass u where "collect_info cwd ccfg pass u = Inr (Some m)" by blast
    then show ?thesis by (intro exI [of _ "(cwd, ccfg, pass, u)"]) (simp add: collect_of_def)
  qed
  show ?thesis by (intro conjI collect.classes_by_file [OF assms(1)]) (rule src, assumption)+
qed

theorem collected_classes_by_file_witness:
  "\<exists>a. analyze sorted_list_of_set 20 ex_cfg ex_raw ex_elf = Inr a \<and>
    mod_fns (a_class a) = {s \<in> fn (a_class a). snd s \<in> set (mod_files ex_cfg)}"
proof -
  obtain a where a: "analyze sorted_list_of_set 20 ex_cfg ex_raw ex_elf = Inr a" by (rule ex_run)
  have "\<forall>(name, m) \<in> set ex_raw. \<exists>cwd ccfg pass u. collect_info cwd ccfg pass u = Inr (Some m)"
    using ex_raw_collected by auto
  from collected_classes_by_file [OF a this] a show ?thesis by blast
qed

text \<open>C11: an access to a struct of a module header from a function outside the insiders and the
  borders, in any compiled unit, is reported: the field is a public field and the function a
  public user of the struct in the results of the analysis.\<close>

theorem outside_access_reported:
  assumes "collect_info cwd ccfg pass u = Inr (Some m)" "(name, m) \<in> set raw"
    and "analyze order depth cfg raw elf = Inr a"
    and "structs_named {s \<in> unit_structs u. s_name s \<noteq> Anonymous}"
    and "n \<in> set (u_nodes u)" "d_has_body (n_decl n)" "st \<in> set (each_stmt n)" "header_access cwd ccfg st ctx f"
    and "\<forall>s. decl_sig cwd (n_decl n) = Inr s \<longrightarrow> s \<in> public_user (a_class a)"
  shows "\<exists>struct p s. name_of (s_name ctx) = Inr struct \<and> a_structs a struct = Some p \<and> f \<in> sp_public_fields p \<and>
    decl_sig cwd (n_decl n) = Inr s \<and> s \<in> sp_public_users p"
proof -
  from collect_struct_entry [OF collect_info_run(3) [OF assms(1)] assms(4-8)] obtain struct sm us s where
    e: "name_of (s_name ctx) = Inr struct" "map_of (m_struct m) struct = Some sm"
      "map_of (public_fields sm) f = Some us" "decl_sig cwd (n_decl n) = Inr s" "s \<in> set us" by blast
  from outside_use_reported [OF assms(3,2) e(2,3,5)] assms(9) e show ?thesis by blast
qed

theorem outside_access_reported_witness:
  "\<exists>a struct p s. analyze sorted_list_of_set 20 ex_cfg ex_raw ex_elf = Inr a \<and> name_of (s_name ex_rq) = Inr struct \<and>
    a_structs a struct = Some p \<and> ''lock'' \<in> sp_public_fields p \<and> decl_sig ''/k'' ex_helper = Inr s \<and> s \<in> sp_public_users p"
proof -
  obtain a where a: "analyze sorted_list_of_set 20 ex_cfg ex_raw ex_elf = Inr a"
    "insider (a_class a) = {(''pick'', CORE)}" "border (a_class a) = {(''schedule'', CORE), (''tick'', CORE)}"
    "mod_fns (a_class a) =
       {(''schedule'', CORE), (''pick'', CORE), (''tick'', CORE), (''helper'', CORE), (''fast'', CORE)}" by (rule ex_run)
  let ?st = "OtherStmt [FunctionDeclOp ex_tick, ComponentRef 3 None (Some ''lock'') ex_rq]"
  let ?n = "ex_node ex_helper [?st, ex_call ex_fast]"
  have sig: "decl_sig ''/k'' (n_decl ?n) = Inr (''helper'', CORE)" by code_simp
  have "''kernel/sched/sched.h'' \<in> set (mod_hdrs ex_cfg)" "relpath ''/k'' ''kernel/sched/sched.h'' ''.'' = Inr ''kernel/sched/sched.h''"
    by code_simp+
  then have acc: "header_access ''/k'' ex_cfg ?st ex_rq ''lock''" by (simp add: header_access_def ex_rq_def)
  have structs: "structs_named {s \<in> unit_structs ex_unit. s_name s \<noteq> Anonymous}"
    by (auto simp: structs_named_def unit_structs_def ex_unit_def ex_node_def each_stmt_def map_filter_simps ex_call_def)
  have "(''helper'', CORE) \<in> public_user (a_class a)"
  proof -
    from analyze_run [OF a(1)] obtain l vm where
      "func_class_arithmetics 20 ex_cfg (a_metas a) (a_edges a) (start_class ex_cfg ex_raw l vm) = Inr (a_class a)" by metis
    note fields = arithmetics_fields [OF this]
    from fields(1,3) a(4) have "(''helper'', CORE) \<in> fn (a_class a)"
      by (auto simp: start_class_def ex_raw_def ex_core_def ex_fn_def all_fns_def)
    with fields(22) a(2,3) show ?thesis by simp
  qed
  with sig have "\<forall>s. decl_sig ''/k'' (n_decl ?n) = Inr s \<longrightarrow> s \<in> public_user (a_class a)" by simp
  moreover have "(''kernel/sched/core.c.boundary'', ex_core) \<in> set ex_raw" by (simp add: ex_raw_def)
  moreover have "?n \<in> set (u_nodes ex_unit)" by (simp add: ex_unit_def)
  ultimately have "\<exists>struct p s. name_of (s_name ex_rq) = Inr struct \<and> a_structs a struct = Some p \<and>
      ''lock'' \<in> sp_public_fields p \<and> decl_sig ''/k'' (n_decl ?n) = Inr s \<and> s \<in> sp_public_users p"
    by (intro outside_access_reported [OF ex_collected _ a(1) structs _ _ _ acc])
      (simp_all add: ex_node_def ex_helper_def ex_decl_def each_stmt_def map_filter_simps)
  with a(1) show ?thesis by (auto simp: ex_node_def)
qed

section \<open>The extraction\<close>

text \<open>C4: the code of an insider is extracted verbatim: the lines of a linked insider, from its
  name to its closing brace, are not changed by the function edits, whatever outsiders,
  callbacks, interfaces and sidecars are edited in the other lines of the file.\<close>

theorem insider_kept_verbatim:
  assumes run: "analyze order depth cfg raw elf = Inr a"
    and x: "x = dumped_config cfg a"
    and loc: "function_location x src fs = Inr s" and edit: "function_extract x s ls = Inr ls'"
    and f: "fn_signature f \<in> insider (a_class a) \<inter> in_vmlinux (a_class a)"
      "fn_signature f \<notin> sdcr_fns (a_class a) \<union> set (sidecar cfg)"
    and others: "\<forall>g \<in> set fs. fn_file g = src \<and> fn_signature g \<noteq> fn_signature f \<longrightarrow>
      fn_last_row g < fn_first_row f \<or> fn_last_row f < fn_first_row g"
    and brace: "fn_last_row f < length ls" "contains (ls ! fn_last_row f) ''}''"
  shows "\<forall>i. fn_first_row f \<le> i \<longrightarrow> i \<le> fn_last_row f \<longrightarrow> ls' ! i = ls ! i"
proof (rule function_extract_block [OF edit])
  from analyze_run [OF run] obtain l vm where
    arith: "func_class_arithmetics depth cfg (a_metas a) (a_edges a) (start_class cfg raw l vm) = Inr (a_class a)"
    and fsec: "a_function a = function_section cfg (a_class a)" by metis
  then have out: "arithmetics_of (depth, cfg, a_metas a, a_edges a, start_class cfg raw l vm) = Inr (a_class a)"
    by (simp add: arithmetics_of_def)
  have sigs: "class_sigs x ''sched_outsider'' = sched_outsider (a_class a)" "class_sigs x ''sdcr_out'' = sdcr_out (a_class a)"
    "class_sigs x ''callback'' = callback (a_class a)" "class_sigs x ''interface'' = interface (a_class a)"
    by (simp_all add: class_sigs_def x dumped_config_def fsec function_section_get classes_out_def)
  have "has_classes x" by (simp add: has_classes_def x dumped_config_def fsec function_section_get classes_out_def)
  from function_location_lists [OF this, of src fs] loc
  have s: "s = lists_of x (fn_signature ` set (unit_fns src fs)) (unit_fns src fs)" by simp
  have "\<not> is_outsider x (fn_signature f)" "\<not> is_callback x (fn_signature f)"
    "\<not> is_interface x (fn_signature f)" "\<not> is_sidecar x (fn_signature f)"
    using f arith.linked_insider_not_outsider [OF out] arith.insider_inner [OF out] arith.border_split [OF out]
      arithmetics_fields(17) [OF arith] by (auto simp: fn_roles sigs) (auto simp: x dumped_config_def sidecar_def)
  then have "fn_signature g \<noteq> fn_signature f \<and> g \<in> set fs \<and> fn_file g = src" if "g \<in> set (edited_fns s)" for g
    using that by (auto simp: s edited_fns_def lists_of_def dest: set_unit_fns)
  with others show "fn_last_row g < fn_first_row f \<or> fn_last_row f < fn_first_row g" if "g \<in> set (edited_fns s)" for g
    using that by blast
qed (use brace in \<open>simp_all add: terminator_def fn_rows\<close>)

theorem insider_kept_verbatim_witness:
  "\<exists>ls'. ex_extracted = Inr ls' \<and> ls' ! 0 = ex_lines ! 0 \<and> ls' ! 1 = ex_lines ! 1 \<and>
    ls' ! 2 = ex_lines ! 2 \<and> ls' ! 3 = ex_lines ! 3"
proof -
  obtain a where a: "analyze sorted_list_of_set 20 ex_cfg ex_raw ex_elf = Inr a"
    "insider (a_class a) = {(''pick'', CORE)}"
    "in_vmlinux (a_class a) =
       {(''pick'', CORE), (''tick'', CORE), (''schedule'', CORE), (''helper'', CORE), (''charge'', ACCT)}"
    "a_function a = function_section ex_cfg ex_class" "sdcr_fns (a_class a) = {(''charge'', ACCT), (''sum'', ACCT)}" by (rule ex_run)
  from ex_extracted_run obtain ls' where run: "ex_extracted = Inr ls'" by (metis isl_def sum.exhaust)
  from run [unfolded ex_extracted_def] obtain s where s: "ex_lists = Inr s"
    "function_extract ex_config s ex_lines = Inr ls'" by (auto simp: res_elims)
  have last: "contains (ex_lines ! 3) ''}''" by code_simp
  have "\<forall>i. fn_first_row (ex_fn ''pick'' CORE False 0) \<le> i \<longrightarrow> i \<le> fn_last_row (ex_fn ''pick'' CORE False 0) \<longrightarrow>
      ls' ! i = ex_lines ! i"
  proof (rule insider_kept_verbatim [OF a(1) _ _ s(2)])
    show "function_location ex_config CORE (m_fn ex_core) = Inr s" using s(1) by (simp add: ex_lists_def)
  qed (use a last in \<open>auto simp: ex_config_def dumped_config_def ex_fn_def fn_rows ex_core_def ex_lines_def ex_function_def
      sidecar_def ex_cfg_def CORE_def ACCT_def\<close>)
  with run show ?thesis by (auto simp: ex_fn_def fn_rows)
qed

text \<open>C18: every function of the source file is sorted by its class, each into at most one list
  and at most once, whatever duplicates the metadata holds; init functions, and functions of
  no class, are in none.\<close>

theorem function_location_spec:
  assumes "has_classes x"
  shows "\<exists>s. function_location x src fs = Inr s \<and> distinct (map fn_signature (edited_fns s)) \<and>
    fn_signature ` set (fn_list s) = {g \<in> fn_signature ` {f \<in> set fs. fn_file f = src}. is_outsider x g} \<and>
    fn_signature ` set (callback_list s) = {g \<in> fn_signature ` {f \<in> set fs. fn_file f = src}. is_callback x g} \<and>
    fn_signature ` set (interface_list s) = {g \<in> fn_signature ` {f \<in> set fs. fn_file f = src}. is_interface x g} \<and>
    fn_signature ` set (sidecar_list s) = {g \<in> fn_signature ` {f \<in> set fs. fn_file f = src}. is_sidecar x g}"
proof -
  let ?us = "unit_fns src fs" and ?s = "lists_of x (fn_signature ` set (unit_fns src fs)) (unit_fns src fs)"
  have sigs: "fn_signature ` set ?us = fn_signature ` {f \<in> set fs. fn_file f = src}"
    by (simp add: unit_fns_def first_of_sig_sigs)
  have "fn_signature ` {f \<in> set ?us. P (fn_signature f)} = {g \<in> fn_signature ` set ?us. P g}" for P by auto
  note lists = this [of "is_outsider x"] this [of "is_callback x"] this [of "is_interface x"] this [of "is_sidecar x"]
  have "distinct (map fn_signature ?us)" by (simp add: unit_fns_def first_of_sig_distinct)
  then have "distinct (map fn_signature (edited_fns ?s))"
    by (auto simp: edited_fns_def lists_of_def distinct_map fn_roles intro: inj_on_subset)
  with function_location_lists [OF assms] show ?thesis
    by (intro exI [of _ ?s]) (simp add: lists_of_def lists sigs)
qed

theorem function_location_spec_witness:
  "\<exists>s. function_location ex_config CORE (m_fn ex_core) = Inr s \<and>
    fn_signature ` set (fn_list s) = {g \<in> fn_signature ` {f \<in> set (m_fn ex_core). fn_file f = CORE}. is_outsider ex_config g}"
proof -
  have "has_classes ex_config"
    by (simp add: has_classes_def ex_config_def function_section_get classes_out_def)
  from function_location_spec [OF this, of CORE "m_fn ex_core"] show ?thesis
    by (elim exE conjE) (intro exI conjI)
qed



text \<open>C36: the definition line of a variable that is still shared when the definitions are
  deleted is replaced by the declarations of exactly the variables that start on this line,
  in their order; every other line is as the preceding steps left it.\<close>

theorem var_extract_declares:
  assumes "var_extract s ls = Inr ls'"
  shows "\<exists>ls1 shared. res_bind (res_fold extract_static (static_var_list s) ls)
       (\<lambda>ls. res_fold extract_shared (shared_var_list s) (ls, shared_var_list s)) = Inr (ls1, shared) \<and>
    set shared \<subseteq> set (shared_var_list s) \<and>
    (\<forall>i < length ls. ls' ! i = (if i \<in> decl_start_line ` set shared
       then concat (map (\<lambda>v. the (var_decl_str v) @ [NL]) (filter (\<lambda>v. decl_start_line v = i) shared))
       else ls1 ! i))"
  using assms
proof (rule var_extract_run)
  fix ls1 shared
  assume "set shared \<subseteq> set (shared_var_list s)"
    "res_bind (res_fold extract_static (static_var_list s) ls)
       (\<lambda>ls. res_fold extract_shared (shared_var_list s) (ls, shared_var_list s)) = Inr (ls1, shared)"
    "\<And>i. i < length ls \<Longrightarrow> ls' ! i = (if i \<in> decl_start_line ` set shared then decl_lines i shared else ls1 ! i)"
  then show ?thesis by (intro exI [of _ ls1] exI [of _ shared]) (simp add: decl_lines_def)
qed

theorem var_extract_declares_witness:
  "\<exists>ls' ls1 (shared :: var_meta list). var_extract \<lparr>static_var_list = [], shared_var_list = [ex_var]\<rparr> [''int nr = 3;'' @ [NL]] = Inr ls' \<and>
    ls' ! 0 = (if 0 \<in> decl_start_line ` set shared
       then concat (map (\<lambda>v. the (var_decl_str v) @ [NL]) (filter (\<lambda>v. decl_start_line v = 0) shared)) else ls1 ! 0)"
proof -
  have "\<not> isl (var_extract \<lparr>static_var_list = [], shared_var_list = [ex_var]\<rparr> [''int nr = 3;'' @ [NL]])" by code_simp
  then obtain ls' where run:
    "var_extract \<lparr>static_var_list = [], shared_var_list = [ex_var]\<rparr> [''int nr = 3;'' @ [NL]] = Inr ls'"
    by (metis isl_def sum.exhaust)
  have "0 < length [''int nr = 3;'' @ [NL]]" by simp
  with var_extract_declares [OF run] run show ?thesis by blast
qed

text \<open>C33: what the fix-ups do to a file, exactly. They return a file just when the braces of
  every \<open>__init\<close> function definition they meet are balanced somewhere, and every include path
  they meet can be rewritten. Then there is one set of disjoint definitions, each from a line
  with \<open>__init\<close> and without semicolon to the first line where its braces are balanced, that
  contains every such line of the file, and the result is the source where these definitions
  are blank, the include lines outside of them have their path rewritten, the other init
  annotations are blank, and every other line has only its type names replaced.\<close>

theorem fix_up_spec:
  "fix_up cwd cfg src dst ls = Inr ls' \<longleftrightarrow>
     (\<exists>E. (\<forall>h e. (h, e) \<in> E \<longrightarrow> h < length ls \<and> init_head (ls ! h) \<and> fn_block ls h e) \<and>
       (\<forall>h e h' e'. (h, e) \<in> E \<longrightarrow> (h', e') \<in> E \<longrightarrow> h < h' \<longrightarrow> e < h') \<and>
       (\<forall>i < length ls. init_head (ls ! i) \<longrightarrow> in_block E i) \<and>
       length ls' = length ls \<and>
       (\<forall>i < length ls.
          if in_block E i then ls' ! i = ''''
          else if include_line (ls ! i) then fix_include cwd cfg src dst (ls ! i) = Inr (ls' ! i)
          else if delete_match (ls ! i) then ls' ! i = ''''
          else ls' ! i = fix_types (ls ! i)))"
proof -
  have "(if in_block E i then ls' ! i = ''''
        else if i < length ls then fixed_line cwd cfg src dst (ls ! i) = Inr (ls' ! i)
        else ls' ! i = ls ! i) \<longleftrightarrow>
      (if in_block E i then ls' ! i = ''''
        else if include_line (ls ! i) then fix_include cwd cfg src dst (ls ! i) = Inr (ls' ! i)
        else if delete_match (ls ! i) then ls' ! i = ''''
        else ls' ! i = fix_types (ls ! i))" if "i < length ls" for E i
    using that by (auto simp: fixed_line_def)
  then show ?thesis unfolding fix_up_iff init_blocks_def fixed_upto_def by simp
qed

text \<open>A declaration with \<open>__init\<close>, a variable, an \<open>__init\<close> function and another variable\<close>

definition init_file :: lines where
  "init_file = [''extern void __init g(void);'', ''int a;'', ''void __init f(void)'', [CHR ''{''], ''g();'',
     [CHR ''}''], ''int b;'']"

theorem fix_up_spec_witness:
  "\<exists>E. in_block E 2 \<and> in_block E 5 \<and> \<not> in_block E 1 \<and> \<not> in_block E 6"
proof -
  let ?ls = "['''', ''int a;'', '''', '''', '''', '''', ''int b;'']"
  have "isl (fix_up ''/k'' ex_cfg CORE ''m/core.c'' init_file) = False \<and>
      projr (fix_up ''/k'' ex_cfg CORE ''m/core.c'' init_file) = ?ls" by code_simp
  then have run: "fix_up ''/k'' ex_cfg CORE ''m/core.c'' init_file = Inr ?ls" by (metis sum.collapse(2))
  from fix_up_spec [THEN iffD1, OF run] obtain E where
    E: "\<forall>i < length init_file. init_head (init_file ! i) \<longrightarrow> in_block E i"
       "\<forall>i < length init_file. if in_block E i then ?ls ! i = ''''
          else if include_line (init_file ! i) then fix_include ''/k'' ex_cfg CORE ''m/core.c'' (init_file ! i) = Inr (?ls ! i)
          else if delete_match (init_file ! i) then ?ls ! i = ''''
          else ?ls ! i = fix_types (init_file ! i)" by blast
  have len: "length init_file = 7" by (simp add: init_file_def)
  have "init_head (init_file ! 2)" "\<not> include_line (init_file ! 5)" "\<not> delete_match (init_file ! 5)"
    "fix_types (init_file ! 5) = [CHR ''}'']" by code_simp+
  note facts = this
  have "in_block E 2" using E(1) [rule_format, of 2] facts(1) len by simp
  moreover have "in_block E 5"
    using E(2) [rule_format, of 5, unfolded facts(4)] facts(2,3) len by (simp split: if_splits)
  moreover have "\<not> in_block E 1" using E(2) [rule_format, of 1] len by auto
  moreover have "\<not> in_block E 6" using E(2) [rule_format, of 6] len by auto
  ultimately show ?thesis by blast
qed

text \<open>C17: the rewritten include directive means the same file: the path it gets, read from the
  directory of the extracted file, leads to the file that the original path leads to from
  the directory of the source file; a header of the module keeps its path.\<close>

theorem include_resolves:
  assumes "fix_include cwd cfg src dst line = Inr line'" "starts_with cwd ''/''"
    and "\<not> starts_with cwd ''//''" "\<not> starts_with src ''//''" "\<not> starts_with dst ''//''"
    and "\<not> starts_with (split_on DQUOTE line ! 1) ''//''"
  shows "(line' = line \<and> (\<exists>h \<in> set (mod_files cfg). relpath cwd (path_join (dirname src) (split_on DQUOTE line ! 1)) ''.'' = Inr h)) \<or>
    (\<exists>new. line' = replace (split_on DQUOTE line ! 1) new line \<and>
       abspath cwd (path_join (dirname dst) new) = abspath cwd (path_join (dirname src) (split_on DQUOTE line ! 1)))"
proof -
  let ?old = "split_on DQUOTE line ! 1"
  have roots: "one_root cwd" "one_root (path_join (dirname src) ?old)" "one_root (dirname dst)"
    using assms(3-6) by (simp_all add: one_root_def [symmetric] one_root_path_join one_root_dirname)
  from assms(1) obtain rel where rel: "relpath cwd (path_join (dirname src) ?old) ''.'' = Inr rel"
    and cont: "if rel \<in> set (mod_files cfg) then line' = line
      else \<exists>new. relpath cwd rel (dirname dst) = Inr new \<and> line' = replace ?old new line"
    by (auto simp: fix_include_def res_elims split: if_splits)
  note same = relpath_cwd [OF assms(2) roots(1,2) rel]
  show ?thesis
  proof (cases "rel \<in> set (mod_files cfg)")
    case True
    with cont rel show ?thesis by auto
  next
    case False
    with cont obtain new where new: "relpath cwd rel (dirname dst) = Inr new" "line' = replace ?old new line" by auto
    note dir = relpath_dir [OF assms(2) roots(1) same(2) roots(3) new(1)]
    have "abspath cwd (path_join (dirname dst) new) = abspath cwd (path_join (dirname src) ?old)"
      using abspath_file [OF assms(2) roots(1) dir(2)] abspath_file [OF assms(2) roots(1,2)] dir(1) same(1) by simp
    with new(2) show ?thesis by blast
  qed
qed

theorem include_resolves_witness:
  "\<exists>new. abspath ''/k'' (path_join ''kernel/sched/mod'' new) = ''/k/kernel/sched/stats.h''"
proof -
  let ?line = "''#include '' @ [DQUOTE] @ ''stats.h'' @ [DQUOTE]" and ?dst = "''kernel/sched/mod/core.c''"
  have "\<not> isl (fix_include ''/k'' ex_cfg CORE ?dst ?line)" by code_simp
  then obtain line' where run: "fix_include ''/k'' ex_cfg CORE ?dst ?line = Inr line'" by (metis isl_def sum.exhaust)
  have old: "split_on DQUOTE ?line ! 1 = ''stats.h''" by code_simp
  have paths: "abspath ''/k'' (path_join (dirname CORE) ''stats.h'') = ''/k/kernel/sched/stats.h''"
    "dirname ?dst = ''kernel/sched/mod''" "relpath ''/k'' (path_join (dirname CORE) ''stats.h'') ''.'' = Inr ''kernel/sched/stats.h''"
    by code_simp+
  have "''kernel/sched/stats.h'' \<notin> set (mod_files ex_cfg)" by (simp add: ex_cfg_def)
  with include_resolves [OF run, unfolded old paths] show ?thesis by (auto simp: CORE_def)
qed

text \<open>No step of the extraction adds or removes a line, so the rows that the compiler
  reported for the original file stay valid throughout.\<close>

theorem extract_keeps_rows:
  assumes "extract_file cwd md x src fs vs ls = Inr ls'"
  shows "length ls' = length ls"
  by (rule extract_file_length [OF assms])

theorem extract_keeps_rows_witness:
  "\<exists>ls'. extract_file ''/k'' ''m/'' ex_config CORE [ex_fn ''helper'' CORE True 4] [] ex_lines = Inr ls' \<and>
    length ls' = length ex_lines"
proof -
  have "\<not> isl (extract_file ''/k'' ''m/'' ex_config CORE [ex_fn ''helper'' CORE True 4] [] ex_lines)" by code_simp
  then obtain ls' where run: "extract_file ''/k'' ''m/'' ex_config CORE [ex_fn ''helper'' CORE True 4] [] ex_lines = Inr ls'"
    by (metis isl_def sum.exhaust)
  with extract_keeps_rows [OF run] show ?thesis by blast
qed

text \<open>The rename of a callback replaces every occurrence of its name in the line, so an
  identifier that merely contains the name is rewritten too.\<close>

theorem callback_rename_overreach:
  "\<exists>ls'. extract_callback (ex_fn ''tick'' CORE False 0)
      [''static int tick(struct tick_ctx *c)'', [CHR ''{''], ''return 0;'', [CHR ''}'']] = Inr ls' \<and>
    ls' ! 0 = ''static int __used __cb_tick(struct __used __cb_tick_ctx *c)''"
proof -
  have "res_map (\<lambda>ls. ls ! 0) (extract_callback (ex_fn ''tick'' CORE False 0)
      [''static int tick(struct tick_ctx *c)'', [CHR ''{''], ''return 0;'', [CHR ''}'']]) =
    Inr ''static int __used __cb_tick(struct __used __cb_tick_ctx *c)''" by code_simp
  then show ?thesis by (auto simp: res_map_Inr_iff)
qed

section \<open>Tools\<close>

text \<open>The comparison tool cannot read what the analysis writes: it looks for a class
  \<open>outsider\<close>, which no analysis ever produces.\<close>

theorem yaml_diff_fails:
  assumes "analyze order depth cfg raw elf = Inr a"
  shows "YamlDiff (a_function a) new_yaml = Inl (KeyError ''outsider'')"
proof -
  from analyze_run [OF assms] have "a_function a = function_section cfg (a_class a)" by metis
  then show ?thesis by (simp add: YamlDiff_def outsider_set_def function_section_no_outsider)
qed

theorem yaml_diff_fails_witness:
  "\<exists>a. analyze sorted_list_of_set 20 ex_cfg ex_raw ex_elf = Inr a \<and>
    YamlDiff (a_function a) (a_function a) = Inl (KeyError ''outsider'')"
proof -
  obtain a where "analyze sorted_list_of_set 20 ex_cfg ex_raw ex_elf = Inr a" by (rule ex_run)
  with yaml_diff_fails [OF this] show ?thesis by blast
qed

section \<open>Whole runs\<close>

text \<open>C1: a finished run, whatever the order of its jobs, has extracted every source file of the
  module from its text, from the metadata of its unit and from an analysis of the metadata of
  all units: the target holds the extracted lines, as many as the source has.\<close>

theorem finished_module_files:
  assumes placed: "well_placed env objs us" and run: "(pipe_step env objs)\<^sup>*\<^sup>* (Collecting us, fs0) (Finished, fs)"
  shows "\<exists>cfg raw a. fs0 (abspath (e_cwd env) (e_tmp env @ ''boundary.yaml'')) = Some (ConfigFile cfg) \<and>
    analyze (e_order env) (e_depth env) cfg raw (e_elf env) = Inr a \<and>
    (\<forall>u \<in> set us. \<exists>m. collect_info (e_cwd env) cfg FLD u = Inr (Some m) \<and> (meta_name u, m) \<in> set raw \<and>
      (u_main_input u \<in> set objs - set (ex_mod_hdrs cfg) \<longrightarrow>
        (\<exists>s ls. fs0 (abspath (e_cwd env) (u_main_input u)) = Some (Text s) \<and>
          extract_file (e_cwd env) (e_mod env) (dumped_config cfg a) (u_main_input u) (m_fn m) (m_var m) (readlines s) = Inr ls \<and> length ls = length (readlines s) \<and>
          fs (abspath (e_cwd env) (dst_file cfg (e_mod env) (u_main_input u))) = Some (Text (concat ls)))))"
proof -
  from placed have "separate_jobs env objs us" by (simp add: well_placed_def)
  with run have "run_pipeline env objs us fs0 = (fs, Inr ())" by (simp add: pipe_finished_iff)
  with placed show ?thesis by (rule pipeline_module_file)
qed

theorem finished_module_files_witness:
  "\<exists>fs a s ls. (pipe_step ex_env ex_objs)\<^sup>*\<^sup>* (Collecting ex_units, ex_files) (Finished, fs) \<and>
    ex_files ''/k/kernel/sched/core.c'' = Some (Text s) \<and>
    extract_file ''/k'' ''/k/kernel/sched/mod/'' (dumped_config ex_cfg a) CORE (m_fn ex_core) (m_var ex_core) (readlines s) = Inr ls \<and>
    fs ''/k/kernel/sched/mod/core.c'' = Some (Text (concat ls))"
proof -
  obtain fs where run: "(pipe_step ex_env ex_objs)\<^sup>*\<^sup>* (Collecting ex_units, ex_files) (Finished, fs)" by (rule ex_finished)
  from finished_module_files [OF ex_well_placed run] obtain cfg raw a where
    cfg: "ex_files (abspath (e_cwd ex_env) (e_tmp ex_env @ ''boundary.yaml'')) = Some (ConfigFile cfg)"
    and units: "\<forall>u \<in> set ex_units. \<exists>m. collect_info (e_cwd ex_env) cfg FLD u = Inr (Some m) \<and> (meta_name u, m) \<in> set raw \<and>
      (u_main_input u \<in> set ex_objs - set (ex_mod_hdrs cfg) \<longrightarrow>
        (\<exists>s ls. ex_files (abspath (e_cwd ex_env) (u_main_input u)) = Some (Text s) \<and>
          extract_file (e_cwd ex_env) (e_mod ex_env) (dumped_config cfg a) (u_main_input u) (m_fn m) (m_var m) (readlines s) = Inr ls \<and>
          length ls = length (readlines s) \<and>
          fs (abspath (e_cwd ex_env) (dst_file cfg (e_mod ex_env) (u_main_input u))) = Some (Text (concat ls))))" by blast
  from cfg have "cfg = ex_cfg" by (simp add: ex_files_def)
  moreover have "ex_unit \<in> set ex_units" "CORE \<in> set ex_objs" by (simp_all add: ex_units_def ex_objs_def)
  moreover have "CORE \<notin> set (ex_mod_hdrs ex_cfg)" by code_simp
  moreover have "abspath ''/k'' (dst_file ex_cfg ''/k/kernel/sched/mod/'' CORE) = ''/k/kernel/sched/mod/core.c''" by code_simp
  moreover have "collect_info ''/k'' ex_cfg FLD ex_unit = Inr (Some ex_core)" using ex_collected by (simp add: FLD_def)
  ultimately show ?thesis using run units by fastforce
qed

text \<open>C2: and in the analysis of a finished run, whose classes are on disk for the extraction, a
  compiled call of an insider, in any unit, comes from a known class: the caller is an insider,
  a border function, an init function, a sidecar or an overridden weak definition.\<close>

theorem finished_run_callers:
  assumes placed: "well_placed env objs us" and run: "(pipe_step env objs)\<^sup>*\<^sup>* (Collecting us, fs0) (Finished, fs)"
  shows "\<exists>cfg a. fs0 (abspath (e_cwd env) (e_tmp env @ ''boundary.yaml'')) = Some (ConfigFile cfg) \<and>
    fs (ex_config_path env) = Some (ExtractConfig (dumped_config cfg a)) \<and>
    (\<exists>raw. analyze (e_order env) (e_depth env) cfg raw (e_elf env) = Inr a) \<and>
    (\<forall>u \<in> set us. \<forall>n \<in> set (u_nodes u). \<forall>fd rhs w callee t.
      d_has_body (n_decl n) \<longrightarrow> decl_in_section (n_decl n) ''.init.text'' = Inr False \<longrightarrow>
      GimpleCall (Some fd) rhs w \<in> set (each_stmt n) \<longrightarrow> decl_sig (e_cwd env) fd = Inr callee \<longrightarrow>
      lookup_if_global (a_globals a) callee = Some t \<longrightarrow> t \<in> insider (a_class a) \<longrightarrow>
      (\<exists>caller. decl_sig (e_cwd env) (n_decl n) = Inr caller \<and> caller \<in> insider (a_class a) \<union> border (a_class a)
        \<union> init (a_class a) \<union> fc_sidecar (a_class a) \<union> fake_global (a_class a)))"
proof -
  from placed have sep: "separate_jobs env objs us" by (simp add: well_placed_def)
  with run have "run_pipeline env objs us fs0 = (fs, Inr ())" by (simp add: pipe_finished_iff)
  with placed show ?thesis
  proof (rule pipeline_result)
    fix fs2 cfg raw a
    assume x: "run_seq (extract_stage env) objs fs2 = (fs, Inr ())" "fs2 (ex_config_path env) = Some (ExtractConfig (dumped_config cfg a))"
      and conf: "fs0 (abspath (e_cwd env) (e_tmp env @ ''boundary.yaml'')) = Some (ConfigFile cfg)"
      and a: "analyze (e_order env) (e_depth env) cfg raw (e_elf env) = Inr a"
      and metas: "\<And>u. u \<in> set us \<Longrightarrow> \<exists>m. collect_info (e_cwd env) cfg FLD u = Inr (Some m) \<and> (meta_name u, m) \<in> set raw \<and>
        fs2 (abspath (e_cwd env) (meta_name u)) = Some (MetaFile m)"
    from extract_stage_config [OF sep x] conf a metas show ?thesis
      by (intro exI [of _ cfg] exI [of _ a] conjI ballI allI impI)
        (blast intro: compiled_call_of_insider [OF _ _ a])+
  qed
qed

theorem finished_run_callers_witness:
  "\<exists>fs cfg a caller. (pipe_step ex_env ex_objs)\<^sup>*\<^sup>* (Collecting ex_units, ex_files) (Finished, fs) \<and>
    fs (ex_config_path ex_env) = Some (ExtractConfig (dumped_config cfg a)) \<and> insider (a_class a) = {(''pick'', CORE)} \<and>
    decl_sig ''/k'' (ex_decl ''schedule'' CORE True True 12) = Inr caller \<and> caller \<in> insider (a_class a) \<union> border (a_class a)
      \<union> init (a_class a) \<union> fc_sidecar (a_class a) \<union> fake_global (a_class a)"
proof -
  obtain fs where run: "(pipe_step ex_env ex_objs)\<^sup>*\<^sup>* (Collecting ex_units, ex_files) (Finished, fs)"
    "fs (ex_config_path ex_env) = Some (ExtractConfig ex_config)" by (rule ex_finished)
  let ?n = "ex_node (ex_decl ''schedule'' CORE True True 12) [ex_call ex_pick]"
  from finished_run_callers [OF ex_well_placed run(1)] obtain cfg raw a where
    conf: "fs (ex_config_path ex_env) = Some (ExtractConfig (dumped_config cfg a))"
    and a: "analyze (e_order ex_env) (e_depth ex_env) cfg raw (e_elf ex_env) = Inr a"
    and callers: "\<forall>u \<in> set ex_units. \<forall>n \<in> set (u_nodes u). \<forall>fd rhs w callee t.
      d_has_body (n_decl n) \<longrightarrow> decl_in_section (n_decl n) ''.init.text'' = Inr False \<longrightarrow>
      GimpleCall (Some fd) rhs w \<in> set (each_stmt n) \<longrightarrow> decl_sig (e_cwd ex_env) fd = Inr callee \<longrightarrow>
      lookup_if_global (a_globals a) callee = Some t \<longrightarrow> t \<in> insider (a_class a) \<longrightarrow>
      (\<exists>caller. decl_sig (e_cwd ex_env) (n_decl n) = Inr caller \<and> caller \<in> insider (a_class a) \<union> border (a_class a)
        \<union> init (a_class a) \<union> fc_sidecar (a_class a) \<union> fake_global (a_class a))" by (elim exE conjE)
  from conf run(2) have "a_function a = x_function ex_config" by (simp add: dumped_config_def) (metis ex_config.select_convs(2))
  moreover from a have "a_function a = function_section cfg (a_class a)" by (rule analyze_run)
  ultimately have "function_section cfg (a_class a) ''insider'' = function_section ex_cfg ex_class ''insider''"
    by (simp add: ex_config_def)
  then have ins: "insider (a_class a) = {(''pick'', CORE)}"
    by (simp add: function_section_get classes_out_def ex_class_def)
  have "\<exists>caller. decl_sig (e_cwd ex_env) (n_decl ?n) = Inr caller \<and> caller \<in> insider (a_class a) \<union> border (a_class a)
      \<union> init (a_class a) \<union> fc_sidecar (a_class a) \<union> fake_global (a_class a)"
  proof (rule callers [rule_format, where u = ex_unit and n = ?n and fd = ex_pick and t = "(''pick'', CORE)"])
    show "decl_sig (e_cwd ex_env) ex_pick = Inr (''pick'', CORE)" unfolding ex_env_sel by code_simp
    show "lookup_if_global (a_globals a) (''pick'', CORE) = Some (''pick'', CORE)" by (simp add: lookup_if_global_def CORE_def)
    show "GimpleCall (Some ex_pick) [Some [FunctionDeclOp ex_pick]] [FunctionDeclOp ex_pick] \<in> set (each_stmt ?n)"
      by (simp add: ex_node_def ex_call_def each_stmt_def map_filter_simps)
  qed (simp_all add: ins ex_units_def ex_unit_def ex_node_def ex_decl_def decl_in_section_def)
  then obtain caller where "decl_sig (e_cwd ex_env) (n_decl ?n) = Inr caller"
    and known: "caller \<in> insider (a_class a) \<union> border (a_class a) \<union> init (a_class a) \<union> fc_sidecar (a_class a) \<union> fake_global (a_class a)"
    by blast
  then have "decl_sig ''/k'' (ex_decl ''schedule'' CORE True True 12) = Inr caller" by (simp add: ex_node_def)
  with run(1) conf ins known show ?thesis by (intro exI conjI)
qed

text \<open>C6: the order of the jobs, which make leaves open, does not matter: some order finishes with
  certain files if and only if the sequential run returns with these files, and no order can
  stop with an error when the sequential run succeeds.\<close>

theorem pipeline_any_order:
  assumes "separate_jobs env objs us"
  shows "((pipe_step env objs)\<^sup>*\<^sup>* (Collecting us, fs0) (Finished, fs) \<longleftrightarrow> run_pipeline env objs us fs0 = (fs, Inr ())) \<and>
    ((pipe_step env objs)\<^sup>*\<^sup>* (Collecting us, fs0) (Stopped e, gs) \<longrightarrow> snd (run_pipeline env objs us fs0) \<noteq> Inr ())"
  using pipe_finished_iff [OF assms] pipe_reach_inv [OF assms, of fs0 "(Stopped e, gs)"] by (simp add: pipe_inv_def)

theorem pipeline_any_order_witness:
  "\<exists>fs. run_pipeline ex_env ex_objs ex_units ex_files = (fs, Inr ()) \<and>
    (pipe_step ex_env ex_objs)\<^sup>*\<^sup>* (Collecting ex_units, ex_files) (Finished, fs)"
proof -
  obtain fs where run: "run_pipeline ex_env ex_objs ex_units ex_files = (fs, Inr ())" by (rule ex_pipeline_run)
  with pipeline_any_order [OF ex_separate, of ex_files fs] show ?thesis by blast
qed

text \<open>C7: the sandbox that the command line sets up keeps the jobs apart: for the directories of
  \<open>Plugsched\<close> and the sources it hands to make, each once, whatever lies outside \<open>working/\<close>
  and \<open>kernel/sched/mod/\<close> can be collected, analysed and extracted in any order.\<close>

theorem sandbox_well_placed:
  assumes new: "new_plugsched cwd self awk glob lookup load cpus wd vm mk = Inr p"
    and cwd: "starts_with cwd ''/''" "one_root cwd" "one_root wd"
    and env: "e_cwd env = work_dir p" "e_tmp env = tmp_dir p" "e_mod env = mod_path p"
    and objs: "objs = remdups (cli_mod_files p @ cli_sdcr_srcs p)" and tree: "tree_ok env objs us"
  shows "set (mod_objs p) = (\<lambda>f. f @ ''.extract'') ` set objs \<and> well_placed env objs us \<and>
    ((pipe_step env objs)\<^sup>*\<^sup>* (Collecting us, fs0) (Finished, fs) \<longleftrightarrow> run_pipeline env objs us fs0 = (fs, Inr ()))"
proof -
  from new have p: "work_dir p = abspath cwd wd" "tmp_dir p = path_join (work_dir p) ''working/''"
    "mod_path p = path_join (work_dir p) ''kernel/sched/mod/''" "mod_objs p = map (\<lambda>f. f @ ''.extract'') (cli_mod_files p @ cli_sdcr_srcs p)"
    by (auto simp: new_plugsched_def Let_def res_elims)
  have "normal_root (e_cwd env)" unfolding env(1) p(1) by (rule normal_root_abspath [OF cwd])
  then have placed: "well_placed env objs us" by (intro layout_well_placed [OF _ _ _ tree]) (simp_all add: env p(2,3))
  then have "separate_jobs env objs us" by (simp add: well_placed_def)
  from pipe_finished_iff [OF this] placed show ?thesis by (simp add: p(4) objs image_Un)
qed

theorem sandbox_well_placed_witness:
  "\<exists>p. new_plugsched ''/'' ''/p'' (\<lambda>_. Inr \<lparr>VERSION = ''5'', PATCHLEVEL = ''10'', SUBLEVEL = ''0'', EXTRAVERSION = ''-1.x86_64''\<rparr>)
     (\<lambda>_. [''/p/configs/5.10'']) (\<lambda>_. Inr ()) (\<lambda>_. Inr \<lparr>c_mod_files = Some [CORE, SCHED_H], c_sidecar = Some (Some [(''charge'', ACCT)])\<rparr>)
     4 ''k'' ''vmlinux'' ''Makefile'' = Inr p \<and> well_placed ex_env (remdups (cli_mod_files p @ cli_sdcr_srcs p)) ex_units"
proof -
  let ?new = "new_plugsched ''/'' ''/p'' (\<lambda>_. Inr \<lparr>VERSION = ''5'', PATCHLEVEL = ''10'', SUBLEVEL = ''0'', EXTRAVERSION = ''-1.x86_64''\<rparr>)
     (\<lambda>_. [''/p/configs/5.10'']) (\<lambda>_. Inr ()) (\<lambda>_. Inr \<lparr>c_mod_files = Some [CORE, SCHED_H], c_sidecar = Some (Some [(''charge'', ACCT)])\<rparr>)
     4 ''k'' ''vmlinux'' ''Makefile''"
  have "res_map (\<lambda>p. (work_dir p, tmp_dir p, mod_path p, remdups (cli_mod_files p @ cli_sdcr_srcs p))) ?new =
      Inr (''/k'', ''/k/working/'', ''/k/kernel/sched/mod/'', [CORE, SCHED_H, ACCT])" by code_simp
  then obtain p where p: "?new = Inr p" "work_dir p = ''/k''" "tmp_dir p = ''/k/working/''" "mod_path p = ''/k/kernel/sched/mod/''"
    "ex_objs = remdups (cli_mod_files p @ cli_sdcr_srcs p)"
    by (auto simp: res_map_Inr_iff ex_objs_def)
  have "tree_ok ex_env ex_objs ex_units" by (rule ex_tree_ok)
  from sandbox_well_placed [OF p(1) _ _ _ _ _ _ p(5) this] p(1) p(2-5)
  show ?thesis by (intro exI [of _ p]) (simp add: one_root_def)
qed

text \<open>C8: a build that can succeed does: if the sequential run returns with certain files, then
  every state of every interleaving can go on to exactly these files, and it cannot end
  anywhere else.\<close>

theorem pipeline_live:
  assumes "separate_jobs env objs us" "run_pipeline env objs us fs0 = (fs, Inr ())"
    and "(pipe_step env objs)\<^sup>*\<^sup>* (Collecting us, fs0) s"
  shows "(pipe_step env objs)\<^sup>*\<^sup>* s (Finished, fs) \<and> ((\<nexists>t. pipe_step env objs s t) \<longrightarrow> s = (Finished, fs))"
proof
  show "(pipe_step env objs)\<^sup>*\<^sup>* s (Finished, fs)" by (rule pipe_live [OF assms(1,3,2)])
  show "(\<nexists>t. pipe_step env objs s t) \<longrightarrow> s = (Finished, fs)"
    using pipe_progress pipe_final_ok [OF assms(1,3) _ assms(2)] by blast
qed

theorem pipeline_live_witness:
  "\<exists>s fs. (pipe_step ex_env ex_objs)\<^sup>*\<^sup>* (Collecting ex_units, ex_files) (Collecting [ex_unit, ex_acct_unit], s) \<and>
    (pipe_step ex_env ex_objs)\<^sup>*\<^sup>* (Collecting [ex_unit, ex_acct_unit], s) (Finished, fs)"
proof -
  obtain s where s: "(pipe_step ex_env ex_objs)\<^sup>*\<^sup>* (Collecting ex_units, ex_files) (Collecting [ex_unit, ex_acct_unit], s)"
    by (rule ex_fork_first)
  obtain fs where "run_pipeline ex_env ex_objs ex_units ex_files = (fs, Inr ())" by (rule ex_pipeline_run)
  from pipeline_live [OF ex_separate this s] s show ?thesis by blast
qed

text \<open>C19: the analysis program writes the configuration of the extraction as soon as the classes
  are known; the export table comes last, and it is complete exactly if every callback,
  interface and sidecar has a declaration string and no two local ones of a kind share a name.
  Otherwise the program raises and leaves the export table empty. If there are no classes,
  nothing is written.\<close>

theorem analysis_outcome:
  assumes "iterates order" "separate_results cwd tmp md"
    and "analyze_main cwd tmp md walk order depth elf fs = (fs', r)"
  shows "case run_analysis cwd tmp walk order depth elf fs of
      Inl e \<Rightarrow> fs' = fs \<and> r = Inl e
    | Inr (cfg, a) \<Rightarrow>
        fs' (abspath cwd (tmp @ ''boundary_extract.yaml'')) = Some (ExtractConfig (dumped_config cfg a)) \<and>
        (if exportable a (callback (a_class a)) \<and> exportable a (interface (a_class a)) \<and> exportable a (fc_sidecar (a_class a))
         then r = Inr () \<and> fs' (abspath cwd (md @ ''export_jump.h'')) = Some (Text (concat (sorted_list_of_set (jump_lines a))))
         else isl r \<and> fs' (abspath cwd (md @ ''export_jump.h'')) = Some (Text []))"
proof (cases "run_analysis cwd tmp walk order depth elf fs")
  case (Inl e)
  with assms(3) show ?thesis by (simp add: analyze_main_def)
next
  case (Inr ca)
  obtain cfg a where ca: "ca = (cfg, a)" by fastforce
  from run_analysis_meta [OF Inr [unfolded ca]] obtain raw where "analyze order depth cfg raw elf = Inr a" by blast
  note jump = export_jump_outcome [OF this assms(1)]
  have "abspath cwd (tmp @ ''boundary_extract.yaml'') \<noteq> abspath cwd (md @ ''export_jump.h'')"
    using assms(2) by (auto simp: separate_results_def analysis_writes_def)
  with write_results_files(1) [OF assms(2), of order cfg a fs] assms(3) jump Inr show ?thesis
    by (cases "export_jump order a") (auto simp: ca analyze_main_def Let_def write_file_at split: if_splits)
qed

theorem analysis_outcome_witness:
  "\<exists>a fs. fs (abspath ''/k'' (''/k/kernel/sched/mod/'' @ ''export_jump.h'')) = Some (Text (concat (sorted_list_of_set (jump_lines a)))) \<and>
    snd (analyze_stage ex_env ex_files1) = Inr () \<and> fst (analyze_stage ex_env ex_files1) = fs"
proof -
  obtain a fs2 where a: "analyze sorted_list_of_set 20 ex_cfg ex_raw ex_elf = Inr a" "analyze_stage ex_env ex_files1 = (fs2, Inr ())"
    by (rule ex_analyze_run)
  have "separate_results ''/k'' ''/k/working/'' ''/k/kernel/sched/mod/''" by (simp add: separate_results_def ex_results)
  from analysis_outcome [OF iterates_sorted this a(2) [unfolded analyze_stage_def, simplified ex_env_sel ex_env_order]]
    ex_run_analysis [OF a(1)] a(2) show ?thesis
    by (auto split: if_splits)
qed

end
